theory Spec2Isabelle
  imports
    Main
    "HOL-Library.Char_ord"
    "HOL-Library.List_Lexorder"
    "HOL-Library.Product_Lexorder"
    "HOL-Library.Multiset"
begin

section \<open>The status command of pathvector: cmd/status.go\<close>

text \<open>
  The theory embeds the one source file \<^verbatim>\<open>cmd/status.go\<close>: the prefix priority of a
  protocol name, the comparator handed to \<^verbatim>\<open>sort.SliceStable\<close>, the loop that builds the
  rows of the table, the helpers \<^verbatim>\<open>containsAny\<close>, \<^verbatim>\<open>parseTableInt\<close> and
  \<^verbatim>\<open>colorStatus\<close>, and the control flow of \<^verbatim>\<open>statusCmd.Run\<close>.
  The functions of the Go libraries that the file calls are modelled first: decoding and
  encoding UTF-8, \<^verbatim>\<open>strings.ToLower\<close> over every string of bytes, the stable sort.

  A Go string is a sequence of bytes, here a \<^typ>\<open>string\<close> (a list of 8-bit characters).
  Go compares strings byte by byte, a proper prefix being smaller: that is the
  lexicographic order of \<^typ>\<open>char list\<close> over the byte order of \<^typ>\<open>char\<close>.
  A Go \<^verbatim>\<open>int\<close> is modelled as \<^typ>\<open>int\<close>: the file does no arithmetic on the integers
  it prints, so no overflow can occur.
\<close>

subsection \<open>Functions of the Go standard library used by the file\<close>

text \<open>
  A rune is a Go \<^verbatim>\<open>int32\<close>, here an \<^typ>\<open>int\<close>. \<^verbatim>\<open>utf8.DecodeRuneInString\<close> reads the
  first rune of a string and its width in bytes; bytes that do not begin a well-formed
  UTF-8 sequence give \<^verbatim>\<open>RuneError\<close> (U+FFFD) and width 1. The table \<^verbatim>\<open>first\<close> of the
  package gives, for a lead byte, the length of the sequence and the range accepted for
  its second byte.
\<close>

definition RuneError :: int where
  "RuneError = 0xFFFD"

definition first :: "int \<Rightarrow> (nat \<times> int \<times> int) option" where
  "first s0 =
     (if 0xC2 \<le> s0 \<and> s0 \<le> 0xDF then Some (2, 0x80, 0xBF)
      else if s0 = 0xE0 then Some (3, 0xA0, 0xBF)
      else if s0 = 0xED then Some (3, 0x80, 0x9F)
      else if 0xE1 \<le> s0 \<and> s0 \<le> 0xEF then Some (3, 0x80, 0xBF)
      else if s0 = 0xF0 then Some (4, 0x90, 0xBF)
      else if 0xF1 \<le> s0 \<and> s0 \<le> 0xF3 then Some (4, 0x80, 0xBF)
      else if s0 = 0xF4 then Some (4, 0x80, 0x8F)
      else None)"

definition DecodeRuneInString :: "string \<Rightarrow> int \<times> nat" where
  "DecodeRuneInString s =
     (case s of
        [] \<Rightarrow> (RuneError, 0)
      | c0 # _ \<Rightarrow>
          let s0 = of_char c0 in
          if s0 < 0x80 then (s0, 1)
          else
            (case first s0 of
               None \<Rightarrow> (RuneError, 1)
             | Some (sz, lo, hi) \<Rightarrow>
                 if length s < sz then (RuneError, 1)
                 else
                   let s1 = of_char (s ! 1) in
                   if s1 < lo \<or> hi < s1 then (RuneError, 1)
                   else if sz \<le> 2 then ((s0 mod 32) * 64 + s1 mod 64, 2)
                   else
                     let s2 = of_char (s ! 2) in
                     if s2 < 0x80 \<or> 0xBF < s2 then (RuneError, 1)
                     else if sz \<le> 3
                       then (((s0 mod 16) * 64 + s1 mod 64) * 64 + s2 mod 64, 3)
                     else
                       let s3 = of_char (s ! 3) in
                       if s3 < 0x80 \<or> 0xBF < s3 then (RuneError, 1)
                       else ((((s0 mod 8) * 64 + s1 mod 64) * 64 + s2 mod 64) * 64
                               + s3 mod 64, 4)))"

text \<open>The runes that \<^verbatim>\<open>for _, c := range s\<close> yields: the string decoded rune after
  rune.\<close>

function runesOf :: "string \<Rightarrow> int list" where
  "runesOf s =
     (if s = [] then []
      else (case DecodeRuneInString s of (c, width) \<Rightarrow> c # runesOf (drop width s)))"
  by pat_completeness auto
termination
proof (relation "measure length")
  show "wf (measure length)" by simp
next
  fix s :: string and c :: int and width :: nat
  assume s: "s \<noteq> []" and cw: "(c, width) = DecodeRuneInString s"
  have "0 < snd (DecodeRuneInString s)"
    using s
    by (cases s) (auto simp: DecodeRuneInString_def Let_def split: option.splits)
  with cw have "0 < width" by (metis snd_conv)
  with s show "(drop width s, s) \<in> measure length" by simp
qed

declare runesOf.simps [simp del]

text \<open>\<^verbatim>\<open>utf8.AppendRune\<close>: the UTF-8 bytes of a rune; a rune that is negative, beyond
  U+10FFFF or a surrogate is written as \<^verbatim>\<open>RuneError\<close>.\<close>

definition EncodeRune :: "int \<Rightarrow> string" where
  "EncodeRune r =
     (if 0 \<le> r \<and> r < 0x80 then [char_of r]
      else if 0 \<le> r \<and> r < 0x800 then [char_of (0xC0 + r div 64), char_of (0x80 + r mod 64)]
      else if r < 0 \<or> 0x10FFFF < r \<or> (0xD800 \<le> r \<and> r \<le> 0xDFFF)
        then [CHR 0xEF, CHR 0xBF, CHR 0xBD]
      else if r < 0x10000
        then [char_of (0xE0 + r div 4096), char_of (0x80 + (r div 64) mod 64),
              char_of (0x80 + r mod 64)]
      else [char_of (0xF0 + r div 262144), char_of (0x80 + (r div 4096) mod 64),
            char_of (0x80 + (r div 64) mod 64), char_of (0x80 + r mod 64)])"

text \<open>
  \<^verbatim>\<open>strings.Map(mapping, s)\<close>: every rune of \<^verbatim>\<open>s\<close> is replaced by its image and
  written in UTF-8, a rune with a negative image is dropped. (The library copies the bytes
  of a rune that the mapping leaves alone; for a well-formed rune these are the bytes
  \<^verbatim>\<open>AppendRune\<close> writes, and an ill-formed byte counts as changed and is written as
  \<^verbatim>\<open>RuneError\<close>.)
\<close>

definition stringsMap :: "(int \<Rightarrow> int) \<Rightarrow> string \<Rightarrow> string" where
  "stringsMap mapping s =
     concat (map (\<lambda>c. let r = mapping c in if 0 \<le> r then EncodeRune r else [])
               (runesOf s))"

text \<open>
  \<^verbatim>\<open>unicode.ToLower\<close>: up to \<^verbatim>\<open>MaxASCII\<close> the letters A to Z are moved to a to z and
  every other rune is kept; beyond, the rune is looked up in the case tables of the
  package (\<^verbatim>\<open>To(LowerCase, r)\<close>). The tables are data of the Unicode standard: what
  they give for a rune is the parameter \<open>caseTable\<close> of the model.
\<close>

definition unicodeToLower :: "(int \<Rightarrow> int) \<Rightarrow> int \<Rightarrow> int" where
  "unicodeToLower caseTable r =
     (if r \<le> 0x7F then (if 0x41 \<le> r \<and> r \<le> 0x5A then r + 32 else r)
      else caseTable r)"

text \<open>
  \<^verbatim>\<open>strings.ToLower\<close>: a string of ASCII bytes only is lowered byte by byte; any other
  string goes through \<^verbatim>\<open>Map(unicode.ToLower, s)\<close>.
\<close>

definition toLowerByte :: "char \<Rightarrow> char" where
  "toLowerByte c =
     (if CHR ''A'' \<le> c \<and> c \<le> CHR ''Z'' then char_of (of_char c + (32::int)) else c)"

definition ToLower :: "(int \<Rightarrow> int) \<Rightarrow> string \<Rightarrow> string" where
  "ToLower caseTable s =
     (if list_all (\<lambda>c. of_char c < (0x80::int)) s then map toLowerByte s
      else stringsMap (unicodeToLower caseTable) s)"

text \<open>\<^verbatim>\<open>strings.HasPrefix(s, prefix)\<close>:
  \<^verbatim>\<open>len(s) >= len(prefix) && s[:len(prefix)] == prefix\<close>.\<close>

definition HasPrefix :: "string \<Rightarrow> string \<Rightarrow> bool" where
  "HasPrefix s p = (length p \<le> length s \<and> take (length p) s = p)"

text \<open>\<^verbatim>\<open>strings.Contains(s, substr)\<close>: \<^verbatim>\<open>substr\<close> starts at some position of \<^verbatim>\<open>s\<close>
  (the empty string is contained in every string).\<close>

fun Contains :: "string \<Rightarrow> string \<Rightarrow> bool" where
  "Contains [] substr = (substr = [])"
| "Contains (c # s) substr = (HasPrefix (c # s) substr \<or> Contains s substr)"

text \<open>\<^verbatim>\<open>strings.Join(elems, sep)\<close>.\<close>

fun Join :: "string list \<Rightarrow> string \<Rightarrow> string" where
  "Join [] sep = []"
| "Join [e] sep = e"
| "Join (e # f # elems) sep = e @ sep @ Join (f # elems) sep"

text \<open>\<^verbatim>\<open>fmt.Sprintf("%d", i)\<close>: the decimal digits of \<^verbatim>\<open>i\<close>, after a minus sign when
  \<^verbatim>\<open>i\<close> is negative.\<close>

definition digitChar :: "nat \<Rightarrow> char" where
  "digitChar d = char_of (48 + d)"

function decimal :: "nat \<Rightarrow> string" where
  "decimal n = (if n < 10 then [digitChar n] else decimal (n div 10) @ [digitChar (n mod 10)])"
  by pat_completeness auto
termination
  by (relation "measure (\<lambda>n. n)") auto

declare decimal.simps [simp del]

definition Sprintf_d :: "int \<Rightarrow> string" where
  "Sprintf_d i = (if i < 0 then CHR ''-'' # decimal (nat (- i)) else decimal (nat i))"

text \<open>Reading a decimal numeral back, to say what "decimal representation" means.\<close>

definition digitValue :: "char \<Rightarrow> nat" where
  "digitValue c = of_char c - 48"

definition readDecimal :: "string \<Rightarrow> nat" where
  "readDecimal s = foldl (\<lambda>a c. 10 * a + digitValue c) 0 s"

definition readInt :: "string \<Rightarrow> int" where
  "readInt s = (case s of [] \<Rightarrow> 0
     | c # cs \<Rightarrow> if c = CHR ''-'' then - int (readDecimal cs) else int (readDecimal s))"

text \<open>
  \<^verbatim>\<open>sort.SliceStable(x, less)\<close> sorts \<^verbatim>\<open>x\<close> by \<^verbatim>\<open>less\<close>, keeping elements that
  compare equal in their original order. The library sorts blocks of up to 20 elements by
  insertion and merges longer input from such blocks; the model is the insertion sort:
  each element in turn moves left while it is \<^verbatim>\<open>less\<close> than its left neighbour
  (\<^verbatim>\<open>for j := i; j > a && less(j, j-1); j-- { swap(j, j-1) }\<close>).
  Lemma \<open>SliceStable_unique\<close> below shows that, for the comparator of this file, the
  sorted, stable rearrangement of the input is unique, so the result does not hang on the
  way the library reaches it.
\<close>

function insertionStep :: "('a \<Rightarrow> 'a \<Rightarrow> bool) \<Rightarrow> 'a list \<Rightarrow> 'a \<Rightarrow> 'a list" where
  "insertionStep lessf ys x =
     (if ys \<noteq> [] \<and> lessf x (last ys)
      then insertionStep lessf (butlast ys) x @ [last ys]
      else ys @ [x])"
  by pat_completeness auto
termination
  by (relation "measure (\<lambda>(lessf, ys, x). length ys)") auto

declare insertionStep.simps [simp del]

definition SliceStable :: "('a \<Rightarrow> 'a \<Rightarrow> bool) \<Rightarrow> 'a list \<Rightarrow> 'a list" where
  "SliceStable lessf xs = foldl (insertionStep lessf) [] xs"

text \<open>
  The package \<^verbatim>\<open>fatih/color\<close>: \<^verbatim>\<open>GreenString\<close>, \<^verbatim>\<open>RedString\<close> and \<^verbatim>\<open>YellowString\<close>
  return their argument styled. What the styling is (escape sequences, or nothing when
  colour is off) belongs to the package, so the three functions are a parameter of the
  model.
\<close>

record color =
  GreenString :: "string \<Rightarrow> string"
  RedString :: "string \<Rightarrow> string"
  YellowString :: "string \<Rightarrow> string"

text \<open>A palette to run the model on: the SGR sequences of an ANSI terminal.\<close>

definition sgr :: "string \<Rightarrow> string \<Rightarrow> string" where
  "sgr code s = CHR 0x1B # ''['' @ code @ ''m'' @ s @ CHR 0x1B # ''[0m''"

definition ansiColor :: color where
  "ansiColor = \<lparr>GreenString = sgr ''32'', RedString = sgr ''31'', YellowString = sgr ''33''\<rparr>"

subsection \<open>Data model\<close>

text \<open>
  Modelled from the spec: the types \<^verbatim>\<open>bird.ProtocolState\<close>, \<^verbatim>\<open>templating.Protocol\<close>
  and the configuration are declared in packages that are not part of the source file; the
  fields are those the file reads, with the types the specification's data model gives
  them. \<^verbatim>\<open>BGP\<close> is a pointer, tested against \<^verbatim>\<open>nil\<close>: an option.
\<close>

record BGPState =
  NeighborAddress :: string
  NeighborAS :: int

record Routes =
  Imported :: int
  Exported :: int

record ProtocolState =
  Name :: string
  State :: string
  Since :: string
  Info :: string
  Routes :: Routes
  BGP :: "BGPState option"

text \<open>\<^verbatim>\<open>templating.Protocol\<close>: the fields \<^verbatim>\<open>Name\<close> and \<^verbatim>\<open>Tags\<close> (named apart from the
  field \<^verbatim>\<open>Name\<close> of a protocol state).\<close>

record Protocol =
  DisplayName :: string
  Tags :: "string list"

text \<open>\<^verbatim>\<open>map[string]*templating.Protocol\<close>: a key is absent, or bound to a pointer that
  may be \<^verbatim>\<open>nil\<close>.\<close>

type_synonym protocols = "string \<rightharpoonup> Protocol option"

record Config =
  BIRDSocket :: string

text \<open>The package-level flag variables of the command.\<close>

record flags =
  realProtocolNames :: bool
  onlyBGP :: bool
  showTags :: bool
  tagFilter :: "string list"

subsection \<open>Prefix priority\<close>

definition prefixOrder :: "string list" where
  "prefixOrder =
     [''internal'', ''transit'', ''collector'', ''rs'', ''peer'', ''client'', ''downstream'']"

text \<open>The loop \<^verbatim>\<open>for i, prefix := range prefixOrder\<close>, from index \<open>i\<close> on; \<open>None\<close> when
  it falls through.\<close>

fun prefixLoop :: "string \<Rightarrow> nat \<Rightarrow> string list \<Rightarrow> nat option" where
  "prefixLoop lowerName i [] = None"
| "prefixLoop lowerName i (prefix # rest) =
     (if HasPrefix lowerName prefix then Some i else prefixLoop lowerName (Suc i) rest)"

definition getPrefixPriority :: "(int \<Rightarrow> int) \<Rightarrow> string \<Rightarrow> nat" where
  "getPrefixPriority caseTable name =
     (let lowerName = ToLower caseTable name
      in case prefixLoop lowerName 0 prefixOrder of
           Some i \<Rightarrow> i
         | None \<Rightarrow> length prefixOrder)"

text \<open>The specification's wording, to compare with: the name starts with the prefix when
  letter case is disregarded. The characters of a string are its runes; the characters of
  the name, each lowered, begin with the characters of the prefix, each lowered. (A rune
  whose lower case the table gave as negative would be left out, as \<^verbatim>\<open>Map\<close> does.)\<close>

definition loweredRunes :: "(int \<Rightarrow> int) \<Rightarrow> string \<Rightarrow> int list" where
  "loweredRunes caseTable s =
     filter (\<lambda>r. 0 \<le> r) (map (unicodeToLower caseTable) (runesOf s))"

definition startsWithIgnoringCase :: "(int \<Rightarrow> int) \<Rightarrow> string \<Rightarrow> string \<Rightarrow> bool" where
  "startsWithIgnoringCase caseTable name p =
     (take (length (loweredRunes caseTable p)) (loweredRunes caseTable name) =
      loweredRunes caseTable p)"

subsection \<open>The comparator of the sort\<close>

text \<open>The closure passed to \<^verbatim>\<open>sort.SliceStable\<close>, on the two elements at the indices
  it is called with.\<close>

definition lessState :: "(int \<Rightarrow> int) \<Rightarrow> ProtocolState \<Rightarrow> ProtocolState \<Rightarrow> bool" where
  "lessState caseTable a b =
     (let iIsBGP = (BGP a \<noteq> None); jIsBGP = (BGP b \<noteq> None)
      in if \<not> iIsBGP \<and> jIsBGP then True
         else if iIsBGP \<and> \<not> jIsBGP then False
         else if \<not> iIsBGP \<and> \<not> jIsBGP then False
         else
           let priorityI = getPrefixPriority caseTable (Name a);
               priorityJ = getPrefixPriority caseTable (Name b)
           in if priorityI \<noteq> priorityJ then priorityI < priorityJ
              else ToLower caseTable (Name a) < ToLower caseTable (Name b))"

definition sortStates :: "(int \<Rightarrow> int) \<Rightarrow> ProtocolState list \<Rightarrow> ProtocolState list" where
  "sortStates caseTable protocolStates = SliceStable (lessState caseTable) protocolStates"

text \<open>The sort key the comparator amounts to (lemma \<open>lessState_sortKey\<close>): the class,
  then the prefix priority, then the lowered name.\<close>

definition sortKey :: "(int \<Rightarrow> int) \<Rightarrow> ProtocolState \<Rightarrow> nat \<times> nat \<times> string" where
  "sortKey caseTable p =
     (case BGP p of
        None \<Rightarrow> (0, 0, [])
      | Some b \<Rightarrow> (1, getPrefixPriority caseTable (Name p), ToLower caseTable (Name p)))"

text \<open>The order the specification gives for two BGP records: ascending prefix priority,
  then the names compared without regard to case.\<close>

definition bgpOrdered :: "(int \<Rightarrow> int) \<Rightarrow> ProtocolState \<Rightarrow> ProtocolState \<Rightarrow> bool" where
  "bgpOrdered caseTable a b =
     (getPrefixPriority caseTable (Name a) < getPrefixPriority caseTable (Name b) \<or>
      (getPrefixPriority caseTable (Name a) = getPrefixPriority caseTable (Name b) \<and>
       ToLower caseTable (Name a) \<le> ToLower caseTable (Name b)))"

subsection \<open>Helpers of the presentation\<close>

fun containsElem :: "'a \<Rightarrow> 'a list \<Rightarrow> bool" where
  "containsElem i [] = False"
| "containsElem i (j # b) = (if i = j then True else containsElem i b)"

fun containsAny :: "'a list \<Rightarrow> 'a list \<Rightarrow> bool" where
  "containsAny [] b = False"
| "containsAny (i # a) b = (if containsElem i b then True else containsAny a b)"

definition parseTableInt :: "int \<Rightarrow> string" where
  "parseTableInt i = (if i = - 1 then [] else Sprintf_d i)"

definition colorStatus :: "color \<Rightarrow> string \<Rightarrow> string" where
  "colorStatus col s =
     (if s = ''up'' \<or> s = ''Established'' then GreenString col s
      else if Contains s ''Error'' \<or> s = ''down'' then RedString col s
      else if Contains s ''Connect'' \<or> s = ''start'' then YellowString col s
      else s)"

text \<open>The specification's wording of the colouring: an ordered list of rules, the first
  rule whose condition holds decides; a substring is a part of the string between some
  beginning and some end of it.\<close>

definition hasSubstring :: "string \<Rightarrow> string \<Rightarrow> bool" where
  "hasSubstring s sub = (\<exists>pre post. s = pre @ sub @ post)"

fun firstMatch :: "(('a \<Rightarrow> bool) \<times> ('a \<Rightarrow> 'b)) list \<Rightarrow> ('a \<Rightarrow> 'b) \<Rightarrow> 'a \<Rightarrow> 'b" where
  "firstMatch [] dflt s = dflt s"
| "firstMatch ((cond, outcome) # rules) dflt s =
     (if cond s then outcome s else firstMatch rules dflt s)"

definition colorRules :: "color \<Rightarrow> ((string \<Rightarrow> bool) \<times> (string \<Rightarrow> string)) list" where
  "colorRules col =
     [(\<lambda>s. s = ''up'' \<or> s = ''Established'', GreenString col),
      (\<lambda>s. s = ''down'' \<or> hasSubstring s ''Error'', RedString col),
      (\<lambda>s. s = ''start'' \<or> hasSubstring s ''Connect'', YellowString col)]"

subsection \<open>The rows of the table\<close>

datatype panic = NilPointerDereference

text \<open>\<^verbatim>\<open>if p, found := protocols[protocolState.Name]; found\<close>: the display name and the
  tags of the entry, the raw name and no tags without one. An entry that is a \<^verbatim>\<open>nil\<close>
  pointer is found, and reading its field panics.\<close>

definition lookupProtocol :: "protocols \<Rightarrow> ProtocolState \<Rightarrow> panic + string \<times> string list" where
  "lookupProtocol protocols protocolState =
     (case protocols (Name protocolState) of
        None \<Rightarrow> Inr (Name protocolState, [])
      | Some None \<Rightarrow> Inl NilPointerDereference
      | Some (Some p) \<Rightarrow> Inr (DisplayName p, Tags p))"

text \<open>The cells of a row, from the resolved name and tags.\<close>

definition makeRow :: "color \<Rightarrow> flags \<Rightarrow> ProtocolState \<Rightarrow> string \<Rightarrow> string list \<Rightarrow> string list" where
  "makeRow col fl protocolState protocolName tags =
     (let (neighborAddr, neighborAS) =
            (case BGP protocolState of
               None \<Rightarrow> (''-'', ''-'')
             | Some b \<Rightarrow> (NeighborAddress b, parseTableInt (NeighborAS b)));
          row = [protocolName,
                 neighborAS,
                 neighborAddr,
                 colorStatus col (State protocolState),
                 parseTableInt (Imported (Routes protocolState)),
                 parseTableInt (Exported (Routes protocolState)),
                 Since protocolState,
                 colorStatus col (Info protocolState)]
      in if showTags fl then row @ [Join tags '', ''] else row)"

text \<open>One turn of the loop over the sorted states: the table after it, or the panic.\<close>

definition loopBody ::
  "color \<Rightarrow> flags \<Rightarrow> protocols \<Rightarrow> ProtocolState \<Rightarrow> string list list \<Rightarrow> panic + string list list"
where
  "loopBody col fl protocols protocolState table =
     (if \<not> onlyBGP fl \<or> BGP protocolState \<noteq> None then
        (case lookupProtocol protocols protocolState of
           Inl e \<Rightarrow> Inl e
         | Inr (protocolName, tags) \<Rightarrow>
             if length (tagFilter fl) = 0 \<or> containsAny (tagFilter fl) tags
             then Inr (table @ [makeRow col fl protocolState protocolName tags])
             else Inr table)
      else Inr table)"

fun tableLoop ::
  "color \<Rightarrow> flags \<Rightarrow> protocols \<Rightarrow> ProtocolState list \<Rightarrow> string list list \<Rightarrow> panic + string list list"
where
  "tableLoop col fl protocols [] table = Inr table"
| "tableLoop col fl protocols (protocolState # rest) table =
     (case loopBody col fl protocols protocolState table of
        Inl e \<Rightarrow> Inl e
      | Inr table' \<Rightarrow> tableLoop col fl protocols rest table')"

definition buildTable ::
  "color \<Rightarrow> flags \<Rightarrow> protocols \<Rightarrow> ProtocolState list \<Rightarrow> panic + string list list"
where
  "buildTable col fl protocols protocolStates = tableLoop col fl protocols protocolStates []"

text \<open>The specification's wording of the two filters, as predicates on a record: the
  BGP-only flag, and the resolved tags against the filter tags.\<close>

definition resolvedTags :: "protocols \<Rightarrow> ProtocolState \<Rightarrow> string list" where
  "resolvedTags protocols p =
     (case protocols (Name p) of Some (Some e) \<Rightarrow> Tags e | _ \<Rightarrow> [])"

definition resolvedName :: "protocols \<Rightarrow> ProtocolState \<Rightarrow> string" where
  "resolvedName protocols p =
     (case protocols (Name p) of Some (Some e) \<Rightarrow> DisplayName e | _ \<Rightarrow> Name p)"

definition passesBGPOnly :: "flags \<Rightarrow> ProtocolState \<Rightarrow> bool" where
  "passesBGPOnly fl p = (if onlyBGP fl then BGP p \<noteq> None else True)"

definition passesTagFilter :: "flags \<Rightarrow> protocols \<Rightarrow> ProtocolState \<Rightarrow> bool" where
  "passesTagFilter fl protocols p =
     (if tagFilter fl = [] then True
      else set (resolvedTags protocols p) \<inter> set (tagFilter fl) \<noteq> {})"

definition retained :: "flags \<Rightarrow> protocols \<Rightarrow> ProtocolState \<Rightarrow> bool" where
  "retained fl protocols p = (passesBGPOnly fl p \<and> passesTagFilter fl protocols p)"

definition rowOf :: "color \<Rightarrow> flags \<Rightarrow> protocols \<Rightarrow> ProtocolState \<Rightarrow> string list" where
  "rowOf col fl protocols p =
     makeRow col fl p (resolvedName protocols p) (resolvedTags protocols p)"

text \<open>A record at which the loop panics: it gets past the BGP-only test and its name is
  bound to a \<^verbatim>\<open>nil\<close> entry.\<close>

definition hitsNil :: "flags \<Rightarrow> protocols \<Rightarrow> ProtocolState \<Rightarrow> bool" where
  "hitsNil fl protocols p = (passesBGPOnly fl p \<and> protocols (Name p) = Some None)"

subsection \<open>The run of the command\<close>

text \<open>
  The collaborators of \<^verbatim>\<open>statusCmd.Run\<close> are not part of the file: what each of them
  returns is a field of the environment the run is given. \<^verbatim>\<open>loadConfig\<close> returns a
  pointer and an error, and the run uses the pointer whatever the error is, so both are
  kept; of the others the run uses the value only when there is no error, so each is a
  sum (\<open>Inl\<close> the error's text).
\<close>

record world =
  loadConfig :: "Config option \<times> string option"
  RunCommand :: "string \<Rightarrow> string \<Rightarrow> string + string"
  ReadFile :: "string \<Rightarrow> string + string"
  Unmarshal :: "string \<Rightarrow> string + protocols"
  ParseProtocols :: "string \<Rightarrow> string + ProtocolState list"

datatype event =
    LogWarn string
  | CallRunCommand string string
  | CallReadFile string
  | CallPrintTable "string list" "string list list"

datatype outcome = Returned | Fatal string | Panicked panic

definition protocolsPath :: string where
  "protocolsPath = ''/etc/bird/protocols.json''"

text \<open>The block \<^verbatim>\<open>if !realProtocolNames { ... }\<close>: the calls it makes, and the map or the
  message of \<^verbatim>\<open>log.Fatalf\<close>.\<close>

definition readProtocols :: "flags \<Rightarrow> world \<Rightarrow> event list \<times> (string + protocols)" where
  "readProtocols fl w =
     (if \<not> realProtocolNames fl then
        (case ReadFile w protocolsPath of
           Inl e \<Rightarrow> ([CallReadFile protocolsPath], Inl (''Reading protocol names: '' @ e))
         | Inr contents \<Rightarrow>
             (case Unmarshal w contents of
                Inl e \<Rightarrow> ([CallReadFile protocolsPath], Inl (''Unmarshalling protocol names: '' @ e))
              | Inr m \<Rightarrow> ([CallReadFile protocolsPath], Inr m)))
      else ([], Inr Map.empty))"

definition tableHeader :: "flags \<Rightarrow> string list" where
  "tableHeader fl =
     (let header = [''Peer'', ''AS'', ''Neighbor'', ''State'', ''In'', ''Out'', ''Since'', ''Info'']
      in if showTags fl then header @ [''Tags''] else header)"

text \<open>What follows \<^verbatim>\<open>loadConfig\<close> in the run, with the configuration pointer \<open>c\<close>.
  \<^verbatim>\<open>c.BIRDSocket\<close> is read first: a \<^verbatim>\<open>nil\<close> pointer panics there.\<close>

definition runWith ::
  "(int \<Rightarrow> int) \<Rightarrow> color \<Rightarrow> flags \<Rightarrow> world \<Rightarrow> Config option \<Rightarrow> event list \<times> outcome"
where
  "runWith caseTable col fl w c =
     (case c of
        None \<Rightarrow> ([], Panicked NilPointerDereference)
      | Some cfg \<Rightarrow>
          let ev1 = [CallRunCommand ''show protocols all'' (BIRDSocket cfg)] in
          (case RunCommand w ''show protocols all'' (BIRDSocket cfg) of
             Inl e \<Rightarrow> (ev1, Fatal e)
           | Inr commandOutput \<Rightarrow>
               (case readProtocols fl w of
                  (ev2, Inl msg) \<Rightarrow> (ev1 @ ev2, Fatal msg)
                | (ev2, Inr protocols) \<Rightarrow>
                    (case ParseProtocols w commandOutput of
                       Inl e \<Rightarrow> (ev1 @ ev2, Fatal e)
                     | Inr protocolStates \<Rightarrow>
                         (case buildTable col fl protocols
                                 (sortStates caseTable protocolStates) of
                            Inl p \<Rightarrow> (ev1 @ ev2, Panicked p)
                          | Inr table \<Rightarrow>
                              (ev1 @ ev2 @ [CallPrintTable (tableHeader fl) table],
                               Returned))))))"

definition configWarning :: "string \<Rightarrow> string" where
  "configWarning err = ''Error loading config, falling back to no-config output parsing: '' @ err"

definition Run ::
  "(int \<Rightarrow> int) \<Rightarrow> color \<Rightarrow> flags \<Rightarrow> world \<Rightarrow> event list \<times> outcome"
where
  "Run caseTable col fl w =
     (case loadConfig w of
        (c, err) \<Rightarrow>
          let ev0 = (case err of None \<Rightarrow> [] | Some e \<Rightarrow> [LogWarn (configWarning e)])
          in (case runWith caseTable col fl w c of (evs, out) \<Rightarrow> (ev0 @ evs, out)))"

subsection \<open>Records to run the model on\<close>

text \<open>A part of the case table: the capital letters of Latin-1 and the dotted capital I
  (U+0130, lowered to \<open>i\<close>); every other rune is left as it is.\<close>

definition exampleCaseTable :: "int \<Rightarrow> int" where
  "exampleCaseTable r =
     (if r = 0x130 then 0x69
      else if 0xC0 \<le> r \<and> r \<le> 0xDE \<and> r \<noteq> 0xD7 then r + 32
      else r)"

definition exampleBGP :: BGPState where
  "exampleBGP = \<lparr>NeighborAddress = ''192.0.2.1'', NeighborAS = 64512\<rparr>"

definition exampleState :: "string \<Rightarrow> BGPState option \<Rightarrow> ProtocolState" where
  "exampleState n b =
     \<lparr>Name = n, State = ''up'', Since = ''2024-05-01'', Info = ''Established'',
      Routes = \<lparr>Imported = 12, Exported = - 1\<rparr>, BGP = b\<rparr>"

abbreviation nonBGP :: "string \<Rightarrow> ProtocolState" where
  "nonBGP n \<equiv> exampleState n None"

abbreviation bgp :: "string \<Rightarrow> ProtocolState" where
  "bgp n \<equiv> exampleState n (Some exampleBGP)"

definition exampleProtocols :: protocols where
  "exampleProtocols =
     [''transit1'' \<mapsto> Some \<lparr>DisplayName = ''Upstream One'', Tags = [''core'', ''edge'']\<rparr>,
      ''peer1'' \<mapsto> Some \<lparr>DisplayName = ''Peer One'', Tags = [''core'']\<rparr>]"

definition exampleFlags :: flags where
  "exampleFlags =
     \<lparr>realProtocolNames = False, onlyBGP = False, showTags = True, tagFilter = [''edge'']\<rparr>"

text \<open>An environment in which loading the configuration fails, a configuration is
  returned all the same, the daemon answers, and the name-mapping file cannot be read.\<close>

definition exampleWorld :: world where
  "exampleWorld =
     \<lparr>loadConfig = (Some \<lparr>BIRDSocket = ''/run/bird/bird.ctl''\<rparr>, Some ''no config file''),
      RunCommand = (\<lambda>command socket. Inr ''BIRD ready.''),
      ReadFile = (\<lambda>name. Inl ''no such file or directory''),
      Unmarshal = (\<lambda>contents. Inr Map.empty),
      ParseProtocols = (\<lambda>text. Inr [bgp ''transit1''])\<rparr>"

section \<open>Properties\<close>

subsection \<open>Strings and runes\<close>

lemma of_char_int_nonneg: "(0::int) \<le> of_char c"
  by (metis of_nat_0_le_iff of_nat_of_char)

lemma of_char_int_less: "of_char c < (256::int)"
  using pos_mod_bound [of 256 "of_char c :: int"] by simp

lemma DecodeRuneInString_ascii:
  "of_char c < (0x80::int) \<Longrightarrow> DecodeRuneInString (c # s) = (of_char c, 1)"
  by (simp add: DecodeRuneInString_def)

lemma runesOf_ascii:
  "\<forall>c \<in> set s. of_char c < (0x80::int) \<Longrightarrow> runesOf s = map of_char s"
proof (induction s)
  case Nil
  then show ?case by (simp add: runesOf.simps)
next
  case (Cons c s)
  then show ?case
    by (subst runesOf.simps) (simp add: DecodeRuneInString_ascii)
qed

lemma unicodeToLower_ascii:
  assumes "of_char c < (0x80::int)"
  shows "unicodeToLower ct (of_char c) = of_char (toLowerByte c)"
proof -
  have n: "(of_char c :: int) = int (of_char c)" by (rule of_nat_of_char [symmetric])
  have a: "(CHR ''A'' \<le> c) = (0x41 \<le> (of_char c :: int))"
    unfolding less_eq_char_def n by simp
  have z: "(c \<le> CHR ''Z'') = ((of_char c :: int) \<le> 0x5A)"
    unfolding less_eq_char_def n by simp
  show ?thesis
    using assms by (simp add: unicodeToLower_def toLowerByte_def a z)
qed

lemma EncodeRune_ascii: "0 \<le> r \<Longrightarrow> r < 0x80 \<Longrightarrow> EncodeRune r = [char_of r]"
  by (simp add: EncodeRune_def)

lemma EncodeRune_lead:
  assumes "0x80 \<le> r"
  shows "\<exists>b bs. EncodeRune r = b # bs \<and> (0x80::int) \<le> of_char b"
proof -
  have two: "r < 0x800 \<Longrightarrow> (0xC0 + r div 64) mod 256 = 0xC0 + r div 64"
    using assms by (intro mod_pos_pos_trivial) auto
  have three: "r < 0x10000 \<Longrightarrow> (0xE0 + r div 4096) mod 256 = 0xE0 + r div 4096"
    using assms by (intro mod_pos_pos_trivial) auto
  have four: "r \<le> 0x10FFFF \<Longrightarrow> (0xF0 + r div 262144) mod 256 = 0xF0 + r div 262144"
    using assms by (intro mod_pos_pos_trivial) auto
  show ?thesis
    using assms two three four by (auto simp: EncodeRune_def)
qed


lemma stringsMap_concat:
  "stringsMap m s = concat (map EncodeRune (filter (\<lambda>r. 0 \<le> r) (map m (runesOf s))))"
proof -
  have "concat (map (\<lambda>c. let r = m c in if 0 \<le> r then EncodeRune r else []) rs) =
        concat (map EncodeRune (filter (\<lambda>r. 0 \<le> r) (map m rs)))" for rs
    by (induction rs) (simp_all add: Let_def)
  then show ?thesis by (simp add: stringsMap_def)
qed

lemma stringsMap_ascii:
  assumes "\<forall>c \<in> set s. of_char c < (0x80::int)"
  shows "stringsMap (unicodeToLower ct) s = map toLowerByte s"
proof -
  have "concat (map EncodeRune (filter (\<lambda>r. 0 \<le> r)
          (map (unicodeToLower ct) (map of_char t)))) = map toLowerByte t"
    if "\<forall>c \<in> set t. of_char c < (0x80::int)" for t
    using that
  proof (induction t)
    case Nil
    then show ?case by simp
  next
    case (Cons c t)
    have l: "unicodeToLower ct (of_char c) = of_char (toLowerByte c)"
      using Cons.prems by (simp add: unicodeToLower_ascii)
    have e: "EncodeRune (of_char (toLowerByte c)) = [toLowerByte c]"
    proof -
      have "of_char (toLowerByte c) < (0x80::int)"
        using l Cons.prems by (auto simp: unicodeToLower_def split: if_splits)
      then show ?thesis by (simp add: EncodeRune_ascii of_char_int_nonneg)
    qed
    show ?case using Cons by (simp add: l e of_char_int_nonneg)
  qed
  with assms show ?thesis by (simp add: stringsMap_concat runesOf_ascii)
qed

lemma ToLower_loweredRunes: "ToLower ct s = concat (map EncodeRune (loweredRunes ct s))"
proof (cases "\<forall>c \<in> set s. of_char c < (0x80::int)")
  case True
  then have "ToLower ct s = stringsMap (unicodeToLower ct) s"
    by (simp add: ToLower_def stringsMap_ascii list_all_iff)
  then show ?thesis by (simp add: stringsMap_concat loweredRunes_def)
next
  case False
  then have "ToLower ct s = stringsMap (unicodeToLower ct) s"
    by (simp only: ToLower_def list_all_iff if_False)
  then show ?thesis by (simp add: stringsMap_concat loweredRunes_def)
qed

lemma loweredRunes_ascii:
  assumes "\<forall>c \<in> set p. of_char c < (0x80::int)"
  shows "loweredRunes ct p = map of_char (map toLowerByte p)"
  using assms
  by (simp add: loweredRunes_def runesOf_ascii unicodeToLower_ascii of_char_int_nonneg
      filter_id_conv comp_def cong: map_cong)

lemma HasPrefix_Cons: "HasPrefix (x # s) (c # p) = (x = c \<and> HasPrefix s p)"
  by (auto simp: HasPrefix_def)

lemma HasPrefix_Nil: "HasPrefix s [] = True" "HasPrefix [] (c # p) = False"
  by (simp_all add: HasPrefix_def)

lemma HasPrefix_runes:
  assumes "\<forall>c \<in> set p. of_char c < (0x80::int)" and "\<forall>l \<in> set ls. 0 \<le> l"
  shows "HasPrefix (concat (map EncodeRune ls)) p = (take (length p) ls = map of_char p)"
  using assms
proof (induction p arbitrary: ls)
  case Nil
  then show ?case by (simp add: HasPrefix_Nil)
next
  case (Cons c p)
  show ?case
  proof (cases ls)
    case Nil
    then show ?thesis by (simp add: HasPrefix_Nil)
  next
    case (Cons l ls')
    have c: "of_char c < (0x80::int)" using Cons.prems(1) by simp
    have ih: "HasPrefix (concat (map EncodeRune ls')) p = (take (length p) ls' = map of_char p)"
      using Cons.prems Cons by (intro Cons.IH) auto
    show ?thesis
    proof (cases "l < 0x80")
      case True
      have l0: "0 \<le> l" using Cons.prems(2) Cons by simp
      have "(char_of l = c) = (l = of_char c)"
      proof
        assume "char_of l = c"
        then have "of_char (char_of l) = (of_char c :: int)" by simp
        then show "l = of_char c" using True l0 by simp
      next
        assume "l = of_char c"
        then show "char_of l = c" by simp
      qed
      then show ?thesis
        using True l0 ih by (simp add: Cons EncodeRune_ascii HasPrefix_Cons)
    next
      case False
      then obtain b bs where e: "EncodeRune l = b # bs" "(0x80::int) \<le> of_char b"
        using EncodeRune_lead [of l] by auto
      with c have "b \<noteq> c" by auto
      moreover have "l \<noteq> of_char c" using False c by auto
      ultimately show ?thesis by (simp add: Cons e HasPrefix_Cons)
    qed
  qed
qed

lemma HasPrefix_ToLower:
  assumes "\<forall>c \<in> set p. of_char c < (0x80::int)" and "map toLowerByte p = p"
  shows "HasPrefix (ToLower ct name) p = startsWithIgnoringCase ct name p"
proof -
  have p: "loweredRunes ct p = map of_char p"
    using assms by (simp add: loweredRunes_ascii)
  have "\<forall>l \<in> set (loweredRunes ct name). 0 \<le> l"
    by (simp add: loweredRunes_def)
  then show ?thesis
    using assms(1) by (simp add: ToLower_loweredRunes HasPrefix_runes startsWithIgnoringCase_def p)
qed

lemma prefixOrder_lower:
  "p \<in> set prefixOrder \<Longrightarrow> (\<forall>c \<in> set p. of_char c < (0x80::int)) \<and> map toLowerByte p = p"
  by (auto simp: prefixOrder_def toLowerByte_def)

subsection \<open>Prefix priority\<close>

lemma prefixLoop_Some:
  "prefixLoop l i ps = Some k \<Longrightarrow>
     i \<le> k \<and> k < i + length ps \<and> HasPrefix l (ps ! (k - i)) \<and>
     (\<forall>j < k - i. \<not> HasPrefix l (ps ! j))"
proof (induction ps arbitrary: i)
  case Nil
  then show ?case by simp
next
  case (Cons p ps)
  show ?case
  proof (cases "HasPrefix l p")
    case True
    with Cons.prems show ?thesis by simp
  next
    case False
    with Cons.prems have r: "prefixLoop l (Suc i) ps = Some k" by simp
    from Cons.IH [OF r] have ih: "Suc i \<le> k" "k < Suc i + length ps"
      "HasPrefix l (ps ! (k - Suc i))" "\<forall>j < k - Suc i. \<not> HasPrefix l (ps ! j)" by auto
    have "k - i = Suc (k - Suc i)" using ih(1) by simp
    then show ?thesis using ih False by (auto simp: nth_Cons split: nat.splits)
  qed
qed

lemma prefixLoop_None:
  "prefixLoop l i ps = None \<Longrightarrow> \<forall>j < length ps. \<not> HasPrefix l (ps ! j)"
  by (induction ps arbitrary: i) (auto simp: nth_Cons split: if_splits nat.splits)

lemma length_prefixOrder: "length prefixOrder = 7"
  by (simp add: prefixOrder_def)

lemma HasPrefix_prefixOrder:
  assumes "j < length prefixOrder"
  shows "HasPrefix (ToLower ct name) (prefixOrder ! j) =
         startsWithIgnoringCase ct name (prefixOrder ! j)"
proof -
  from assms have "prefixOrder ! j \<in> set prefixOrder" by simp
  from prefixOrder_lower [OF this] show ?thesis
    by (intro HasPrefix_ToLower) simp_all
qed

lemma getPrefixPriority_le: "getPrefixPriority ct name \<le> 7"
  using prefixLoop_Some [of "ToLower ct name" 0 prefixOrder]
  by (auto simp: getPrefixPriority_def length_prefixOrder split: option.splits)

text \<open>
  Claim C2. For every name (and whatever the case tables give beyond ASCII), the prefix
  priority is the index of the first prefix of the list internal, transit, collector, rs,
  peer, client, downstream that the name starts with when letter case is disregarded, and
  7, one past the end of the list, when the name starts with none of them: the result is
  at most 7, no prefix at a smaller index matches, and the prefix at the result matches
  when the result is below 7.
\<close>

theorem getPrefixPriority_first_match:
  "length prefixOrder = 7 \<and>
   getPrefixPriority ct name \<le> 7 \<and>
   (\<forall>j < getPrefixPriority ct name. \<not> startsWithIgnoringCase ct name (prefixOrder ! j)) \<and>
   (getPrefixPriority ct name < 7 \<longrightarrow>
      startsWithIgnoringCase ct name (prefixOrder ! getPrefixPriority ct name))"
proof (cases "prefixLoop (ToLower ct name) 0 prefixOrder")
  case None
  then have g: "getPrefixPriority ct name = 7"
    by (simp add: getPrefixPriority_def length_prefixOrder)
  have "\<forall>j < 7. \<not> startsWithIgnoringCase ct name (prefixOrder ! j)"
    using prefixLoop_None [OF None]
    by (simp add: length_prefixOrder HasPrefix_prefixOrder)
  with g show ?thesis by (simp add: length_prefixOrder)
next
  case (Some k)
  then have g: "getPrefixPriority ct name = k"
    by (simp add: getPrefixPriority_def)
  from prefixLoop_Some [OF Some] have k: "k < 7" "HasPrefix (ToLower ct name) (prefixOrder ! k)"
    "\<forall>j < k. \<not> HasPrefix (ToLower ct name) (prefixOrder ! j)"
    by (simp_all add: length_prefixOrder)
  have "startsWithIgnoringCase ct name (prefixOrder ! k)"
    using k(1,2) by (simp add: HasPrefix_prefixOrder length_prefixOrder)
  moreover have "\<forall>j < k. \<not> startsWithIgnoringCase ct name (prefixOrder ! j)"
    using k(1,3) by (simp add: HasPrefix_prefixOrder length_prefixOrder)
  ultimately show ?thesis using g k(1) by (simp add: length_prefixOrder)
qed

text \<open>The theorem at the name \<open>Transit1\<close>: priority 1, that of \<open>transit\<close>; with it the
  priorities of the other names of the specification's examples, and of a name that
  begins with the dotted capital I (U+0130), which the case table lowers to \<open>i\<close>.\<close>

theorem getPrefixPriority_first_match_witness:
  "getPrefixPriority exampleCaseTable ''Transit1'' = 1 \<and>
   prefixOrder ! 1 = ''transit'' \<and>
   startsWithIgnoringCase exampleCaseTable ''Transit1'' ''transit'' \<and>
   \<not> startsWithIgnoringCase exampleCaseTable ''Transit1'' ''internal'' \<and>
   getPrefixPriority exampleCaseTable ''transit2'' = 1 \<and>
   getPrefixPriority exampleCaseTable ''peer1'' = 4 \<and>
   getPrefixPriority exampleCaseTable ''custom-session'' = 7 \<and>
   getPrefixPriority exampleCaseTable ([CHR 0xC4, CHR 0xB0] @ ''nternal1'') = 0 \<and>
   startsWithIgnoringCase exampleCaseTable ([CHR 0xC4, CHR 0xB0] @ ''nternal1'') ''internal''"
proof -
  have a: "getPrefixPriority exampleCaseTable ''Transit1'' = 1" by code_simp
  have b: "prefixOrder ! 1 = ''transit''" "prefixOrder ! 0 = ''internal''"
    by (simp_all add: prefixOrder_def)
  have c: "getPrefixPriority exampleCaseTable ''transit2'' = 1"
    "getPrefixPriority exampleCaseTable ''peer1'' = 4"
    "getPrefixPriority exampleCaseTable ''custom-session'' = 7" by code_simp+
  have d: "getPrefixPriority exampleCaseTable ([CHR 0xC4, CHR 0xB0] @ ''nternal1'') = 0"
    by code_simp
  have e: "startsWithIgnoringCase exampleCaseTable ([CHR 0xC4, CHR 0xB0] @ ''nternal1'')
             (prefixOrder ! 0)"
    using getPrefixPriority_first_match [of exampleCaseTable "[CHR 0xC4, CHR 0xB0] @ ''nternal1''"]
    unfolding d by simp
  show ?thesis
    using getPrefixPriority_first_match [of exampleCaseTable "''Transit1''"] a b c d e by simp
qed

subsection \<open>The stable sort\<close>

lemma insertionStep_Nil: "insertionStep lessf [] x = [x]"
  by (simp add: insertionStep.simps)

lemma insertionStep_snoc:
  "insertionStep lessf (ys @ [y]) x =
     (if lessf x y then insertionStep lessf ys x @ [y] else ys @ [y, x])"
  by (subst insertionStep.simps) simp

lemma SliceStable_Nil: "SliceStable lessf [] = []"
  by (simp add: SliceStable_def)

lemma SliceStable_snoc:
  "SliceStable lessf (xs @ [x]) = insertionStep lessf (SliceStable lessf xs) x"
  by (simp add: SliceStable_def)

lemma mset_insertionStep: "mset (insertionStep lessf ys x) = add_mset x (mset ys)"
  by (induction ys rule: rev_induct) (simp_all add: insertionStep_Nil insertionStep_snoc)

lemma set_insertionStep: "set (insertionStep lessf ys x) = insert x (set ys)"
  using mset_insertionStep [of lessf ys x] by (metis set_mset_add_mset_insert set_mset_mset)

lemma sorted_insertionStep:
  fixes f :: "'a \<Rightarrow> 'k::linorder"
  assumes "sorted (map f ys)"
  shows "sorted (map f (insertionStep (\<lambda>a b. f a < f b) ys x))"
  using assms
proof (induction ys rule: rev_induct)
  case Nil
  then show ?case by (simp add: insertionStep_Nil)
next
  case (snoc y ys)
  then show ?case
    by (auto simp: insertionStep_snoc sorted_append set_insertionStep)
qed

lemma stable_insertionStep:
  fixes f :: "'a \<Rightarrow> 'k::linorder"
  shows "filter (\<lambda>z. f z = k) (insertionStep (\<lambda>a b. f a < f b) ys x) =
         filter (\<lambda>z. f z = k) (ys @ [x])"
  by (induction ys rule: rev_induct) (auto simp: insertionStep_Nil insertionStep_snoc)

lemma mset_SliceStable: "mset (SliceStable lessf xs) = mset xs"
  by (induction xs rule: rev_induct)
    (simp_all add: SliceStable_Nil SliceStable_snoc mset_insertionStep)

lemma sorted_SliceStable:
  fixes f :: "'a \<Rightarrow> 'k::linorder"
  shows "sorted (map f (SliceStable (\<lambda>a b. f a < f b) xs))"
  by (induction xs rule: rev_induct)
    (simp_all add: SliceStable_Nil SliceStable_snoc sorted_insertionStep)

lemma stable_SliceStable:
  fixes f :: "'a \<Rightarrow> 'k::linorder"
  shows "filter (\<lambda>z. f z = k) (SliceStable (\<lambda>a b. f a < f b) xs) = filter (\<lambda>z. f z = k) xs"
  by (induction xs rule: rev_induct)
    (simp_all add: SliceStable_Nil SliceStable_snoc stable_insertionStep)

lemma SliceStable_sort_key:
  fixes f :: "'a \<Rightarrow> 'k::linorder"
  shows "SliceStable (\<lambda>a b. f a < f b) xs = sort_key f xs"
proof (rule sym, rule properties_for_sort_key)
  show "mset (SliceStable (\<lambda>a b. f a < f b) xs) = mset xs"
    by (rule mset_SliceStable)
  show "sorted (map f (SliceStable (\<lambda>a b. f a < f b) xs))"
    by (rule sorted_SliceStable)
  fix k
  show "filter (\<lambda>x. f k = f x) (SliceStable (\<lambda>a b. f a < f b) xs) = filter (\<lambda>x. f k = f x) xs"
    using stable_SliceStable [of f "f k" xs] by (simp add: eq_commute)
qed

lemma lessState_sortKey: "lessState ct a b = (sortKey ct a < sortKey ct b)"
  by (auto simp: lessState_def sortKey_def Let_def split: option.splits)

lemma sortStates_sort_key: "sortStates ct ps = sort_key (sortKey ct) ps"
proof -
  have e: "lessState ct = (\<lambda>a b. sortKey ct a < sortKey ct b)"
    by (intro ext) (rule lessState_sortKey)
  show ?thesis
    unfolding sortStates_def by (subst e) (rule SliceStable_sort_key)
qed

lemma sorted_wrt_lessState:
  "sorted_wrt (\<lambda>a b. \<not> lessState ct b a) ys = sorted (map (sortKey ct) ys)"
  by (simp add: lessState_sortKey sorted_map not_less)

text \<open>Any rearrangement of the input that is sorted by the comparator (no element is
  less than one before it) and stable (records that compare equal keep their order) is
  the result of the model.\<close>

lemma SliceStable_unique:
  assumes "mset ys = mset ps"
    and "sorted_wrt (\<lambda>a b. \<not> lessState ct b a) ys"
    and "\<And>r. filter (\<lambda>x. \<not> lessState ct x r \<and> \<not> lessState ct r x) ys =
             filter (\<lambda>x. \<not> lessState ct x r \<and> \<not> lessState ct r x) ps"
  shows "ys = sortStates ct ps"
proof -
  have eq: "(\<lambda>x. \<not> lessState ct x r \<and> \<not> lessState ct r x) =
            (\<lambda>x. sortKey ct r = sortKey ct x)" for r
    by (intro ext) (auto simp: lessState_sortKey)
  have "sort_key (sortKey ct) ps = ys"
  proof (rule properties_for_sort_key)
    show "mset ys = mset ps" by (rule assms(1))
    show "sorted (map (sortKey ct) ys)" using assms(2) by (simp add: sorted_wrt_lessState)
    fix k
    show "filter (\<lambda>x. sortKey ct k = sortKey ct x) ys =
          filter (\<lambda>x. sortKey ct k = sortKey ct x) ps"
      using assms(3) [of k] by (simp add: eq)
  qed
  then show ?thesis by (simp add: sortStates_sort_key)
qed

lemma mset_sortStates: "mset (sortStates ct ps) = mset ps"
  by (simp add: sortStates_def mset_SliceStable)

lemma set_sortStates: "set (sortStates ct ps) = set ps"
  using mset_sortStates [of ct ps] by (metis set_mset_mset)

lemma filter_sortStates: "filter P (sortStates ct ps) = sortStates ct (filter P ps)"
  by (simp add: sortStates_sort_key filter_sort)

lemma sorted_sortStates: "sorted (map (sortKey ct) (sortStates ct ps))"
  by (simp add: sortStates_sort_key)

lemma sortKey_nonBGP: "(sortKey ct p = (0, 0, [])) = (BGP p = None)"
  by (simp add: sortKey_def split: option.splits)

lemma nonBGP_sortStates:
  "filter (\<lambda>p. BGP p = None) (sortStates ct ps) = filter (\<lambda>p. BGP p = None) ps"
  using sort_key_stable [of "sortKey ct" "(0, 0, [])" ps]
  by (simp add: sortStates_sort_key sortKey_nonBGP)

lemma sorted_split:
  fixes f :: "'a \<Rightarrow> 'k::linorder"
  assumes "sorted (map f ys)" and "\<And>a b. P a \<Longrightarrow> \<not> P b \<Longrightarrow> f a < f b"
  shows "ys = filter P ys @ filter (\<lambda>y. \<not> P y) ys"
  using assms(1)
proof (induction ys)
  case Nil
  then show ?case by simp
next
  case (Cons y ys)
  show ?case
  proof (cases "P y")
    case True
    with Cons show ?thesis by simp
  next
    case False
    have "\<not> P z" if "z \<in> set ys" for z
    proof
      assume "P z"
      then have "f z < f y" using False assms(2) by blast
      moreover have "f y \<le> f z" using Cons.prems that by auto
      ultimately show False by simp
    qed
    then have "filter P ys = []" "filter (\<lambda>y. \<not> P y) ys = ys"
      by (simp_all add: filter_empty_conv filter_id_conv)
    with False show ?thesis by simp
  qed
qed

lemma sortStates_split:
  "sortStates ct ps =
     filter (\<lambda>p. BGP p = None) ps @ filter (\<lambda>p. BGP p \<noteq> None) (sortStates ct ps)"
proof -
  have "sortStates ct ps = filter (\<lambda>p. BGP p = None) (sortStates ct ps) @
                        filter (\<lambda>p. \<not> BGP p = None) (sortStates ct ps)"
    by (rule sorted_split [OF sorted_sortStates])
       (auto simp: sortKey_def split: option.splits)
  then show ?thesis by (simp add: nonBGP_sortStates)
qed

lemma bgp_sorted:
  "sorted_wrt (bgpOrdered ct) (filter (\<lambda>p. BGP p \<noteq> None) (sortStates ct ps))"
proof -
  have "sorted_wrt (\<lambda>a b. sortKey ct a \<le> sortKey ct b)
          (filter (\<lambda>p. BGP p \<noteq> None) (sortStates ct ps))"
    using sorted_sortStates [of ct ps] by (simp add: sorted_map sorted_wrt_filter)
  then show ?thesis
  proof (rule sorted_wrt_mono_rel [rotated])
    fix a b
    assume "a \<in> set (filter (\<lambda>p. BGP p \<noteq> None) (sortStates ct ps))"
      "b \<in> set (filter (\<lambda>p. BGP p \<noteq> None) (sortStates ct ps))"
      "sortKey ct a \<le> sortKey ct b"
    then show "bgpOrdered ct a b"
      by (auto simp: sortKey_def bgpOrdered_def split: option.splits)
  qed
qed

lemma getPrefixPriority_ToLower:
  "ToLower ct m = ToLower ct n \<Longrightarrow> getPrefixPriority ct m = getPrefixPriority ct n"
  by (simp add: getPrefixPriority_def)

lemma equal_rank_sortStates:
  "filter (\<lambda>x. \<not> lessState ct x a \<and> \<not> lessState ct a x) (sortStates ct ps) =
   filter (\<lambda>x. \<not> lessState ct x a \<and> \<not> lessState ct a x) ps"
proof -
  have "(\<lambda>x. \<not> lessState ct x a \<and> \<not> lessState ct a x) = (\<lambda>x. sortKey ct x = sortKey ct a)"
    by (intro ext) (auto simp: lessState_sortKey)
  then show ?thesis
    by (simp add: sortStates_sort_key sort_key_stable)
qed

text \<open>Two names beyond ASCII, for a case table that lowers the capital U+00C9 to U+00E9:
  the lowered names decide the order, and a capital and its small letter compare equal.\<close>

lemma beyond_ascii_order:
  assumes "ct 0xC9 = 0xE9" and "ct 0xE0 = 0xE0"
  shows "map Name (sortStates ct [bgp (''peer-'' @ [CHR 0xC3, CHR 0x89]),
                                  bgp (''peer-'' @ [CHR 0xC3, CHR 0xA0])]) =
         [''peer-'' @ [CHR 0xC3, CHR 0xA0], ''peer-'' @ [CHR 0xC3, CHR 0x89]]"
proof -
  have t: "ct = ct(0xC9 := 0xE9, 0xE0 := 0xE0)"
    using assms by (auto simp: fun_eq_iff)
  have "map Name (sortStates (ct(0xC9 := 0xE9, 0xE0 := 0xE0))
            [bgp (''peer-'' @ [CHR 0xC3, CHR 0x89]), bgp (''peer-'' @ [CHR 0xC3, CHR 0xA0])]) =
         [''peer-'' @ [CHR 0xC3, CHR 0xA0], ''peer-'' @ [CHR 0xC3, CHR 0x89]]"
    by code_simp
  then show ?thesis by (simp add: t [symmetric])
qed

lemma beyond_ascii_equal:
  assumes "ct 0xC9 = 0xE9" and "ct 0xE9 = 0xE9"
  shows "\<not> lessState ct (bgp (''peer-'' @ [CHR 0xC3, CHR 0x89]))
             (bgp (''peer-'' @ [CHR 0xC3, CHR 0xA9])) \<and>
         \<not> lessState ct (bgp (''peer-'' @ [CHR 0xC3, CHR 0xA9]))
             (bgp (''peer-'' @ [CHR 0xC3, CHR 0x89]))"
proof -
  have t: "ct = ct(0xC9 := 0xE9, 0xE9 := 0xE9)"
    using assms by (auto simp: fun_eq_iff)
  have "\<not> lessState (ct(0xC9 := 0xE9, 0xE9 := 0xE9))
             (bgp (''peer-'' @ [CHR 0xC3, CHR 0x89])) (bgp (''peer-'' @ [CHR 0xC3, CHR 0xA9])) \<and>
        \<not> lessState (ct(0xC9 := 0xE9, 0xE9 := 0xE9))
             (bgp (''peer-'' @ [CHR 0xC3, CHR 0xA9])) (bgp (''peer-'' @ [CHR 0xC3, CHR 0x89]))"
    by code_simp
  then show ?thesis by (simp add: t [symmetric])
qed

text \<open>
  Claim C1. In the sorted sequence every record without a BGP sub-record comes before
  every record with one, and the records without one keep the order they had in the
  input: the sorted sequence is the non-BGP records of the input, in input order,
  followed by BGP records only. The sort loses and adds no record.
\<close>

theorem nonBGP_first_stable:
  "sortStates ct ps =
     filter (\<lambda>p. BGP p = None) ps @ filter (\<lambda>p. BGP p \<noteq> None) (sortStates ct ps) \<and>
   filter (\<lambda>p. BGP p = None) (sortStates ct ps) = filter (\<lambda>p. BGP p = None) ps \<and>
   mset (sortStates ct ps) = mset ps"
  using sortStates_split [of ct ps] nonBGP_sortStates [of ct ps] mset_sortStates [of ct ps]
  by simp

text \<open>The theorem on an input that mixes the two classes: \<open>static1\<close> and \<open>device1\<close>
  come first, in that order.\<close>

theorem nonBGP_first_stable_witness:
  "sortStates exampleCaseTable
     [bgp ''peer1'', nonBGP ''static1'', bgp ''Transit1'', nonBGP ''device1''] =
     [nonBGP ''static1'', nonBGP ''device1''] @ [bgp ''Transit1'', bgp ''peer1'']"
proof -
  let ?ps = "[bgp ''peer1'', nonBGP ''static1'', bgp ''Transit1'', nonBGP ''device1'']"
  have a: "filter (\<lambda>p. BGP p = None) ?ps = [nonBGP ''static1'', nonBGP ''device1'']"
    by (simp add: exampleState_def)
  have b: "filter (\<lambda>p. BGP p \<noteq> None) (sortStates exampleCaseTable ?ps) =
           [bgp ''Transit1'', bgp ''peer1'']"
    by code_simp
  show ?thesis
    using nonBGP_first_stable [of exampleCaseTable ?ps] a b by simp
qed

text \<open>
  Claim C3. The BGP records of the sorted sequence are in ascending prefix priority, and
  those of equal priority in the order of their names compared without regard to case.
  On the input \<open>direct1\<close> (not BGP), then the BGP records \<open>transit-a\<close>, \<open>peer-b\<close>,
  \<open>rs-c\<close>, \<open>unknown-x\<close>, the sorted order is direct1, transit-a, rs-c, peer-b,
  unknown-x. Letter case counts neither for the priority nor for the tie-break:
  \<open>Transit1\<close> and \<open>transit2\<close> come before \<open>peer1\<close>, \<open>Peer-Zebra\<close> comes after
  \<open>peer-alpha\<close>, and \<open>peer-Zebra\<close> after \<open>peer-alpha\<close> although the byte \<open>Z\<close> is
  smaller than the byte \<open>a\<close>. Beyond ASCII, when the case table lowers U+00C9 to
  U+00E9 and keeps U+00E0, \<open>peer-\<close>U+00C9 comes after \<open>peer-\<close>U+00E0, although its
  bytes are smaller.
\<close>

theorem bgp_by_priority_then_name:
  "sorted_wrt (bgpOrdered ct) (filter (\<lambda>p. BGP p \<noteq> None) (sortStates ct ps)) \<and>
   map Name (sortStates ct [nonBGP ''direct1'', bgp ''transit-a'', bgp ''peer-b'', bgp ''rs-c'',
                            bgp ''unknown-x'']) =
     [''direct1'', ''transit-a'', ''rs-c'', ''peer-b'', ''unknown-x''] \<and>
   map Name (sortStates ct [bgp ''peer1'', bgp ''transit2'', bgp ''Transit1'']) =
     [''Transit1'', ''transit2'', ''peer1''] \<and>
   map Name (sortStates ct [bgp ''Peer-Zebra'', bgp ''peer-alpha'']) =
     [''peer-alpha'', ''Peer-Zebra''] \<and>
   map Name (sortStates ct [bgp ''peer-Zebra'', bgp ''peer-alpha'']) =
     [''peer-alpha'', ''peer-Zebra''] \<and>
   (ct 0xC9 = 0xE9 \<and> ct 0xE0 = 0xE0 \<longrightarrow>
      map Name (sortStates ct [bgp (''peer-'' @ [CHR 0xC3, CHR 0x89]),
                               bgp (''peer-'' @ [CHR 0xC3, CHR 0xA0])]) =
        [''peer-'' @ [CHR 0xC3, CHR 0xA0], ''peer-'' @ [CHR 0xC3, CHR 0x89]])"
proof -
  have a: "map Name (sortStates ct [nonBGP ''direct1'', bgp ''transit-a'', bgp ''peer-b'',
                                   bgp ''rs-c'', bgp ''unknown-x'']) =
     [''direct1'', ''transit-a'', ''rs-c'', ''peer-b'', ''unknown-x'']"
    by code_simp
  have b: "map Name (sortStates ct [bgp ''peer1'', bgp ''transit2'', bgp ''Transit1'']) =
     [''Transit1'', ''transit2'', ''peer1'']"
    by code_simp
  have c: "map Name (sortStates ct [bgp ''Peer-Zebra'', bgp ''peer-alpha'']) =
     [''peer-alpha'', ''Peer-Zebra'']"
    by code_simp
  have d: "map Name (sortStates ct [bgp ''peer-Zebra'', bgp ''peer-alpha'']) =
     [''peer-alpha'', ''peer-Zebra'']"
    by code_simp
  have e: "ct 0xC9 = 0xE9 \<and> ct 0xE0 = 0xE0 \<longrightarrow>
      map Name (sortStates ct [bgp (''peer-'' @ [CHR 0xC3, CHR 0x89]),
                               bgp (''peer-'' @ [CHR 0xC3, CHR 0xA0])]) =
        [''peer-'' @ [CHR 0xC3, CHR 0xA0], ''peer-'' @ [CHR 0xC3, CHR 0x89]]"
    using beyond_ascii_order [of ct] by blast
  show ?thesis using bgp_sorted [of ct ps] a b c d e by simp
qed

text \<open>The theorem on four BGP records: \<open>transit2\<close> first, \<open>peer-alpha\<close> before
  \<open>Peer-Zebra\<close> (same prefix, names compared without case), the unmatched
  \<open>custom-session\<close> last; and on two names beyond ASCII, where the capital letter of
  \<open>peer-\<close>U+00C9 is lowered to U+00E9 before the comparison, so that it comes after
  \<open>peer-\<close>U+00E0.\<close>

theorem bgp_by_priority_then_name_witness:
  "sortStates exampleCaseTable
     [bgp ''Peer-Zebra'', bgp ''custom-session'', bgp ''peer-alpha'', bgp ''transit2''] =
     [bgp ''transit2'', bgp ''peer-alpha'', bgp ''Peer-Zebra'', bgp ''custom-session''] \<and>
   bgpOrdered exampleCaseTable (bgp ''transit2'') (bgp ''peer-alpha'') \<and>
   bgpOrdered exampleCaseTable (bgp ''peer-alpha'') (bgp ''Peer-Zebra'') \<and>
   bgpOrdered exampleCaseTable (bgp ''Peer-Zebra'') (bgp ''custom-session'') \<and>
   sortStates exampleCaseTable
     [bgp (''peer-'' @ [CHR 0xC3, CHR 0x89]), bgp (''peer-'' @ [CHR 0xC3, CHR 0xA0])] =
     [bgp (''peer-'' @ [CHR 0xC3, CHR 0xA0]), bgp (''peer-'' @ [CHR 0xC3, CHR 0x89])]"
proof -
  let ?ps = "[bgp ''Peer-Zebra'', bgp ''custom-session'', bgp ''peer-alpha'', bgp ''transit2'']"
  have a: "sortStates exampleCaseTable ?ps =
     [bgp ''transit2'', bgp ''peer-alpha'', bgp ''Peer-Zebra'', bgp ''custom-session'']"
    by code_simp
  have f: "filter (\<lambda>p. BGP p \<noteq> None)
             [bgp ''transit2'', bgp ''peer-alpha'', bgp ''Peer-Zebra'', bgp ''custom-session''] =
           [bgp ''transit2'', bgp ''peer-alpha'', bgp ''Peer-Zebra'', bgp ''custom-session'']"
    by (simp add: exampleState_def)
  have u: "sortStates exampleCaseTable
     [bgp (''peer-'' @ [CHR 0xC3, CHR 0x89]), bgp (''peer-'' @ [CHR 0xC3, CHR 0xA0])] =
     [bgp (''peer-'' @ [CHR 0xC3, CHR 0xA0]), bgp (''peer-'' @ [CHR 0xC3, CHR 0x89])]"
    by code_simp
  have "sorted_wrt (bgpOrdered exampleCaseTable)
          (filter (\<lambda>p. BGP p \<noteq> None) (sortStates exampleCaseTable ?ps))"
    using bgp_by_priority_then_name [of exampleCaseTable ?ps] by (rule conjunct1)
  then have "sorted_wrt (bgpOrdered exampleCaseTable)
      [bgp ''transit2'', bgp ''peer-alpha'', bgp ''Peer-Zebra'', bgp ''custom-session'']"
    by (simp only: a f)
  then show ?thesis using a u by simp
qed

text \<open>
  Claim C4, as stated: two BGP records with distinct names and equal prefix priority never
  compare equal. The comparator lowers both names before it compares them, so \<open>Peer1\<close>
  and \<open>peer1\<close>, distinct names of priority 4, compare equal: neither is less than the
  other.
\<close>

theorem tie_break_counterexample:
  "BGP (bgp ''Peer1'') \<noteq> None \<and> BGP (bgp ''peer1'') \<noteq> None \<and>
   Name (bgp ''Peer1'') \<noteq> Name (bgp ''peer1'') \<and>
   getPrefixPriority exampleCaseTable (Name (bgp ''Peer1'')) =
     getPrefixPriority exampleCaseTable (Name (bgp ''peer1'')) \<and>
   \<not> lessState exampleCaseTable (bgp ''Peer1'') (bgp ''peer1'') \<and>
   \<not> lessState exampleCaseTable (bgp ''peer1'') (bgp ''Peer1'')"
  by code_simp

text \<open>
  Claim C4, amended. Two BGP records are strictly ordered, one way and never both, exactly
  when their names differ after lowering; they compare equal exactly when their lowered
  names are identical (names that differ in letter case only compare equal, beyond ASCII
  too: \<open>peer-\<close>U+00C9 and \<open>peer-\<close>U+00E9 when the case table lowers the one to the
  other). Records that compare equal keep their input order in the sorted sequence.
\<close>

theorem tie_break_lowered_names:
  assumes "BGP a \<noteq> None" and "BGP b \<noteq> None"
  shows "(lessState ct a b \<or> lessState ct b a) = (ToLower ct (Name a) \<noteq> ToLower ct (Name b)) \<and>
         \<not> (lessState ct a b \<and> lessState ct b a) \<and>
         filter (\<lambda>x. \<not> lessState ct x a \<and> \<not> lessState ct a x) (sortStates ct ps) =
           filter (\<lambda>x. \<not> lessState ct x a \<and> \<not> lessState ct a x) ps \<and>
         (ct 0xC9 = 0xE9 \<and> ct 0xE9 = 0xE9 \<longrightarrow>
            \<not> lessState ct (bgp (''peer-'' @ [CHR 0xC3, CHR 0x89]))
                (bgp (''peer-'' @ [CHR 0xC3, CHR 0xA9])) \<and>
            \<not> lessState ct (bgp (''peer-'' @ [CHR 0xC3, CHR 0xA9]))
                (bgp (''peer-'' @ [CHR 0xC3, CHR 0x89])))"
proof -
  have "(lessState ct a b \<or> lessState ct b a) = (ToLower ct (Name a) \<noteq> ToLower ct (Name b))"
    using assms getPrefixPriority_ToLower [of ct "Name a" "Name b"]
    by (auto simp: lessState_sortKey sortKey_def)
  moreover have "\<not> (lessState ct a b \<and> lessState ct b a)"
    by (auto simp: lessState_sortKey)
  moreover have "ct 0xC9 = 0xE9 \<and> ct 0xE9 = 0xE9 \<longrightarrow>
            \<not> lessState ct (bgp (''peer-'' @ [CHR 0xC3, CHR 0x89]))
                (bgp (''peer-'' @ [CHR 0xC3, CHR 0xA9])) \<and>
            \<not> lessState ct (bgp (''peer-'' @ [CHR 0xC3, CHR 0xA9]))
                (bgp (''peer-'' @ [CHR 0xC3, CHR 0x89]))"
    using beyond_ascii_equal [of ct] by blast
  ultimately show ?thesis
    using equal_rank_sortStates [of ct a ps] by simp
qed

text \<open>The theorem on \<open>Peer1\<close> and \<open>peer1\<close>, which compare equal and stay in the order
  of the input, whichever comes first; on \<open>peer-alpha\<close> and \<open>Peer-Zebra\<close>, which
  differ after lowering; and on \<open>peer-\<close>U+00C9 and \<open>peer-\<close>U+00E9, a capital and its
  small letter beyond ASCII.\<close>

theorem tie_break_lowered_names_witness:
  "\<not> lessState exampleCaseTable (bgp ''Peer1'') (bgp ''peer1'') \<and>
   \<not> lessState exampleCaseTable (bgp ''peer1'') (bgp ''Peer1'') \<and>
   ToLower exampleCaseTable ''Peer1'' = ToLower exampleCaseTable ''peer1'' \<and>
   sortStates exampleCaseTable [bgp ''Peer1'', bgp ''peer1''] = [bgp ''Peer1'', bgp ''peer1''] \<and>
   sortStates exampleCaseTable [bgp ''peer1'', bgp ''Peer1''] = [bgp ''peer1'', bgp ''Peer1''] \<and>
   lessState exampleCaseTable (bgp ''peer-alpha'') (bgp ''Peer-Zebra'') \<and>
   \<not> lessState exampleCaseTable (bgp ''Peer-Zebra'') (bgp ''peer-alpha'') \<and>
   ToLower exampleCaseTable ''peer-alpha'' \<noteq> ToLower exampleCaseTable ''Peer-Zebra'' \<and>
   sortStates exampleCaseTable
     [bgp (''peer-'' @ [CHR 0xC3, CHR 0xA9]), bgp (''peer-'' @ [CHR 0xC3, CHR 0x89])] =
     [bgp (''peer-'' @ [CHR 0xC3, CHR 0xA9]), bgp (''peer-'' @ [CHR 0xC3, CHR 0x89])]"
proof -
  have s: "BGP (bgp n) \<noteq> None" "Name (bgp n) = n" for n by (simp_all add: exampleState_def)
  have l: "ToLower exampleCaseTable ''Peer1'' = ToLower exampleCaseTable ''peer1''"
    by code_simp
  have z: "lessState exampleCaseTable (bgp ''peer-alpha'') (bgp ''Peer-Zebra'')" by code_simp
  have o: "sortStates exampleCaseTable [bgp ''Peer1'', bgp ''peer1''] =
             [bgp ''Peer1'', bgp ''peer1'']"
    "sortStates exampleCaseTable [bgp ''peer1'', bgp ''Peer1''] = [bgp ''peer1'', bgp ''Peer1'']"
    "sortStates exampleCaseTable
       [bgp (''peer-'' @ [CHR 0xC3, CHR 0xA9]), bgp (''peer-'' @ [CHR 0xC3, CHR 0x89])] =
       [bgp (''peer-'' @ [CHR 0xC3, CHR 0xA9]), bgp (''peer-'' @ [CHR 0xC3, CHR 0x89])]"
    by code_simp+
  note t1 = tie_break_lowered_names
    [where a = "bgp ''Peer1''" and b = "bgp ''peer1''" and ct = exampleCaseTable and ps = "[]",
     OF s(1) s(1)]
  note t2 = tie_break_lowered_names
    [where a = "bgp ''peer-alpha''" and b = "bgp ''Peer-Zebra''" and ct = exampleCaseTable
       and ps = "[]", OF s(1) s(1)]
  have e: "\<not> lessState exampleCaseTable (bgp ''Peer1'') (bgp ''peer1'')"
    "\<not> lessState exampleCaseTable (bgp ''peer1'') (bgp ''Peer1'')"
    using t1 [THEN conjunct1] by (simp_all add: s l)
  have n: "\<not> lessState exampleCaseTable (bgp ''Peer-Zebra'') (bgp ''peer-alpha'')"
    "ToLower exampleCaseTable ''peer-alpha'' \<noteq> ToLower exampleCaseTable ''Peer-Zebra''"
    using t2 [THEN conjunct1] t2 [THEN conjunct2, THEN conjunct1] z by (auto simp: s)
  show ?thesis using e l o z n by simp
qed

subsection \<open>Helpers of the presentation\<close>

lemma containsElem_set: "containsElem i b = (i \<in> set b)"
  by (induction b) auto

lemma containsAny_set: "containsAny a b = (set a \<inter> set b \<noteq> {})"
  by (induction a) (auto simp: containsElem_set)

lemma HasPrefix_append: "HasPrefix s p = (\<exists>post. s = p @ post)"
proof
  assume "HasPrefix s p"
  then have "s = p @ drop (length p) s"
    by (metis HasPrefix_def append_take_drop_id)
  then show "\<exists>post. s = p @ post" ..
next
  assume "\<exists>post. s = p @ post"
  then show "HasPrefix s p" by (auto simp: HasPrefix_def)
qed

lemma Contains_hasSubstring: "Contains s sub = hasSubstring s sub"
proof (induction s)
  case Nil
  then show ?case by (auto simp: hasSubstring_def)
next
  case (Cons c s)
  have "hasSubstring (c # s) sub = ((\<exists>post. c # s = sub @ post) \<or> hasSubstring s sub)"
  proof
    assume "hasSubstring (c # s) sub"
    then obtain pre post where e: "c # s = pre @ sub @ post"
      by (auto simp: hasSubstring_def)
    show "(\<exists>post. c # s = sub @ post) \<or> hasSubstring s sub"
    proof (cases pre)
      case Nil
      with e show ?thesis by auto
    next
      case (Cons d pre')
      with e have "s = pre' @ sub @ post" by simp
      then show ?thesis by (auto simp: hasSubstring_def)
    qed
  next
    assume "(\<exists>post. c # s = sub @ post) \<or> hasSubstring s sub"
    then show "hasSubstring (c # s) sub"
    proof
      assume "\<exists>post. c # s = sub @ post"
      then obtain post where "c # s = [] @ sub @ post" by auto
      then show ?thesis unfolding hasSubstring_def by blast
    next
      assume "hasSubstring s sub"
      then obtain pre post where "s = pre @ sub @ post" by (auto simp: hasSubstring_def)
      then have "c # s = (c # pre) @ sub @ post" by simp
      then show ?thesis unfolding hasSubstring_def by blast
    qed
  qed
  with Cons show ?case by (simp add: HasPrefix_append)
qed

lemma colorStatus_firstMatch: "colorStatus col s = firstMatch (colorRules col) (\<lambda>s. s) s"
  by (simp add: colorStatus_def colorRules_def Contains_hasSubstring disj_commute)

subsection \<open>Decimal numerals\<close>

lemma digitValue_digitChar: "d < 10 \<Longrightarrow> digitValue (digitChar d) = d"
  by (simp add: digitValue_def digitChar_def)

lemma digitChar_not_minus: "d < 10 \<Longrightarrow> digitChar d \<noteq> CHR ''-''"
proof
  assume d: "d < 10" and "digitChar d = CHR ''-''"
  then have "of_char (digitChar d) = (of_char (CHR ''-'') :: nat)" by simp
  with d show False by (simp add: digitChar_def)
qed

lemma decimal_nonempty: "decimal n \<noteq> []"
  by (subst decimal.simps) simp

lemma hd_decimal: "\<exists>d < 10. hd (decimal n) = digitChar d"
proof (induction n rule: decimal.induct)
  case (1 n)
  show ?case
  proof (cases "n < 10")
    case True
    then show ?thesis by (subst decimal.simps) auto
  next
    case False
    with 1 obtain d where "d < 10" "hd (decimal (n div 10)) = digitChar d" by auto
    with False show ?thesis
      by (subst decimal.simps) (auto simp: decimal_nonempty)
  qed
qed

lemma readDecimal_snoc: "readDecimal (s @ [c]) = 10 * readDecimal s + digitValue c"
  by (simp add: readDecimal_def)

lemma readDecimal_decimal: "readDecimal (decimal n) = n"
proof (induction n rule: decimal.induct)
  case (1 n)
  show ?case
  proof (cases "n < 10")
    case True
    then show ?thesis
      by (subst decimal.simps) (simp add: readDecimal_def digitValue_digitChar)
  next
    case False
    with 1 have "readDecimal (decimal (n div 10)) = n div 10" by simp
    with False show ?thesis
      by (subst decimal.simps) (simp add: readDecimal_snoc digitValue_digitChar)
  qed
qed

lemma Sprintf_d_nonempty: "Sprintf_d i \<noteq> []"
  by (simp add: Sprintf_d_def decimal_nonempty)

lemma Sprintf_d_not_dash: "Sprintf_d i \<noteq> ''-''"
proof (cases "i < 0")
  case True
  then show ?thesis by (simp add: Sprintf_d_def decimal_nonempty)
next
  case False
  obtain d where d: "d < 10" "hd (decimal (nat i)) = digitChar d"
    using hd_decimal by blast
  show ?thesis
  proof
    assume "Sprintf_d i = ''-''"
    with False have "decimal (nat i) = ''-''" by (simp add: Sprintf_d_def)
    with d show False using digitChar_not_minus [of d] by simp
  qed
qed

lemma readInt_Sprintf_d: "readInt (Sprintf_d i) = i"
proof (cases "i < 0")
  case True
  then show ?thesis by (simp add: Sprintf_d_def readInt_def readDecimal_decimal)
next
  case False
  obtain d where d: "d < 10" "hd (decimal (nat i)) = digitChar d"
    using hd_decimal by blast
  obtain c cs where e: "decimal (nat i) = c # cs"
    using decimal_nonempty [of "nat i"] by (cases "decimal (nat i)") auto
  with d have "c \<noteq> CHR ''-''" using digitChar_not_minus [of d] by simp
  then have "readInt (decimal (nat i)) = int (readDecimal (decimal (nat i)))"
    by (simp add: readInt_def e)
  with False show ?thesis by (simp add: Sprintf_d_def readDecimal_decimal)
qed

text \<open>The two cases of \<open>decimal\<close> as conditional equations, to compute numerals with.\<close>

lemma decimal_small: "n < 10 \<Longrightarrow> decimal n = [digitChar n]"
  by (subst decimal.simps) simp

lemma decimal_big: "\<not> n < 10 \<Longrightarrow> decimal n = decimal (n div 10) @ [digitChar (n mod 10)]"
  by (subst decimal.simps) simp

lemma digitChar_numerals:
  "digitChar 0 = CHR ''0''" "digitChar 1 = CHR ''1''" "digitChar (Suc 0) = CHR ''1''"
  "digitChar 2 = CHR ''2''" "digitChar 3 = CHR ''3''" "digitChar 4 = CHR ''4''"
  "digitChar 5 = CHR ''5''" "digitChar 6 = CHR ''6''" "digitChar 7 = CHR ''7''"
  "digitChar 8 = CHR ''8''" "digitChar 9 = CHR ''9''"
  by code_simp+

subsection \<open>The rows of the table\<close>

lemma lookupProtocol_resolved:
  "protocols (Name p) \<noteq> Some None \<Longrightarrow>
     lookupProtocol protocols p = Inr (resolvedName protocols p, resolvedTags protocols p)"
  by (auto simp: lookupProtocol_def resolvedName_def resolvedTags_def split: option.splits)

lemma lookupProtocol_nil:
  "protocols (Name p) = Some None \<Longrightarrow> lookupProtocol protocols p = Inl NilPointerDereference"
  by (simp add: lookupProtocol_def)

lemma loopBody_hitsNil:
  "hitsNil fl pr p \<Longrightarrow> loopBody col fl pr p table = Inl NilPointerDereference"
  by (auto simp: hitsNil_def passesBGPOnly_def loopBody_def lookupProtocol_nil split: if_splits)

lemma loopBody_retained:
  assumes "\<not> hitsNil fl pr p"
  shows "loopBody col fl pr p table =
           Inr (if retained fl pr p then table @ [rowOf col fl pr p] else table)"
proof (cases "passesBGPOnly fl p")
  case False
  then show ?thesis
    by (auto simp: loopBody_def retained_def passesBGPOnly_def split: if_splits)
next
  case True
  with assms have n: "pr (Name p) \<noteq> Some None" by (simp add: hitsNil_def)
  from True have g: "\<not> onlyBGP fl \<or> BGP p \<noteq> None"
    by (auto simp: passesBGPOnly_def split: if_splits)
  have t: "(length (tagFilter fl) = 0 \<or> containsAny (tagFilter fl) (resolvedTags pr p)) =
           passesTagFilter fl pr p"
    by (auto simp: passesTagFilter_def containsAny_set)
  have l: "lookupProtocol pr p = Inr (resolvedName pr p, resolvedTags pr p)"
    using n by (rule lookupProtocol_resolved)
  show ?thesis
    using g True t
    by (simp add: loopBody_def l retained_def rowOf_def del: length_0_conv)
qed

lemma tableLoop_rows:
  "tableLoop col fl pr ps table =
     (if \<exists>p \<in> set ps. hitsNil fl pr p then Inl NilPointerDereference
      else Inr (table @ map (rowOf col fl pr) (filter (retained fl pr) ps)))"
proof (induction ps arbitrary: table)
  case Nil
  then show ?case by simp
next
  case (Cons p ps)
  show ?case
  proof (cases "hitsNil fl pr p")
    case True
    then show ?thesis by (simp add: loopBody_hitsNil)
  next
    case False
    then show ?thesis by (simp add: loopBody_retained Cons.IH)
  qed
qed

lemma buildTable_rows:
  assumes "\<forall>p \<in> set ps. pr (Name p) \<noteq> Some None"
  shows "buildTable col fl pr ps = Inr (map (rowOf col fl pr) (filter (retained fl pr) ps))"
  using assms by (auto simp: buildTable_def tableLoop_rows hitsNil_def)

lemma buildTable_panics:
  "(buildTable col fl pr ps = Inl NilPointerDereference) = (\<exists>p \<in> set ps. hitsNil fl pr p)"
  by (simp add: buildTable_def tableLoop_rows)

subsection \<open>Colouring\<close>

text \<open>
  Claim C6. The colouring applies its rules in order and the first that matches decides:
  a string equal to \<open>up\<close> or \<open>Established\<close> gets the success style; otherwise one equal
  to \<open>down\<close> or containing \<open>Error\<close> (as it is written, case included) the failure
  style; otherwise one equal to \<open>start\<close> or containing \<open>Connect\<close> the in-progress style;
  every other string is returned as it is.
\<close>

theorem colorStatus_first_match_wins:
  "colorStatus col s = firstMatch (colorRules col) (\<lambda>s. s) s \<and>
   colorStatus col s =
     (if s = ''up'' \<or> s = ''Established'' then GreenString col s
      else if s = ''down'' \<or> hasSubstring s ''Error'' then RedString col s
      else if s = ''start'' \<or> hasSubstring s ''Connect'' then YellowString col s
      else s)"
  using colorStatus_firstMatch [of col s]
  by (simp add: colorRules_def)

text \<open>The theorem on the ANSI palette: a string with both \<open>Connect\<close> and \<open>Error\<close>
  is styled as a failure, and \<open>error\<close> and \<open>Up\<close>, which differ in case, are left alone.\<close>

theorem colorStatus_first_match_wins_witness:
  "colorStatus ansiColor ''up'' = sgr ''32'' ''up'' \<and>
   colorStatus ansiColor ''Established'' = sgr ''32'' ''Established'' \<and>
   colorStatus ansiColor ''down'' = sgr ''31'' ''down'' \<and>
   colorStatus ansiColor ''Connect Error'' = sgr ''31'' ''Connect Error'' \<and>
   colorStatus ansiColor ''start'' = sgr ''33'' ''start'' \<and>
   colorStatus ansiColor ''Connection refused'' = sgr ''33'' ''Connection refused'' \<and>
   colorStatus ansiColor ''error'' = ''error'' \<and>
   colorStatus ansiColor ''Up'' = ''Up''"
proof -
  have a: "colorStatus ansiColor ''up'' = sgr ''32'' ''up''"
    "colorStatus ansiColor ''Established'' = sgr ''32'' ''Established''"
    "colorStatus ansiColor ''down'' = sgr ''31'' ''down''"
    "colorStatus ansiColor ''Connect Error'' = sgr ''31'' ''Connect Error''"
    "colorStatus ansiColor ''start'' = sgr ''33'' ''start''"
    "colorStatus ansiColor ''Connection refused'' = sgr ''33'' ''Connection refused''"
    "colorStatus ansiColor ''error'' = ''error''"
    by (simp_all add: colorStatus_def ansiColor_def HasPrefix_def)
  have "colorStatus ansiColor ''Up'' = firstMatch (colorRules ansiColor) (\<lambda>s. s) ''Up''"
    using colorStatus_first_match_wins [of ansiColor "''Up''"] by (rule conjunct1)
  moreover have "colorStatus ansiColor ''Up'' = ''Up''"
    by (simp add: colorStatus_def ansiColor_def HasPrefix_def)
  ultimately show ?thesis using a by simp
qed

subsection \<open>The cells of a row\<close>

lemma makeRow_cells:
  "makeRow col fl p n tags ! 1 =
     (case BGP p of None \<Rightarrow> ''-'' | Some b \<Rightarrow> parseTableInt (NeighborAS b))"
  "makeRow col fl p n tags ! Suc 0 =
     (case BGP p of None \<Rightarrow> ''-'' | Some b \<Rightarrow> parseTableInt (NeighborAS b))"
  "makeRow col fl p n tags ! 2 =
     (case BGP p of None \<Rightarrow> ''-'' | Some b \<Rightarrow> NeighborAddress b)"
  "makeRow col fl p n tags ! 4 = parseTableInt (Imported (Routes p))"
  "makeRow col fl p n tags ! 5 = parseTableInt (Exported (Routes p))"
  by (simp_all add: makeRow_def Let_def split: option.splits)

lemma length_makeRow: "length (makeRow col fl p n tags) = (if showTags fl then 9 else 8)"
  by (simp add: makeRow_def Let_def split: option.splits)

text \<open>
  Claim C8. In the row of a record, the cell of the imported routes and the cell of the
  exported routes are the empty string when the count is -1, never \<open>-1\<close> nor \<open>0\<close>, and
  the decimal numeral of the count otherwise (a numeral is never empty, and reading it
  gives the count back).
\<close>

theorem route_count_cells:
  "makeRow col fl p n tags ! 4 =
     (if Imported (Routes p) = - 1 then [] else Sprintf_d (Imported (Routes p))) \<and>
   makeRow col fl p n tags ! 5 =
     (if Exported (Routes p) = - 1 then [] else Sprintf_d (Exported (Routes p))) \<and>
   Sprintf_d i \<noteq> [] \<and> readInt (Sprintf_d i) = i"
  by (simp add: makeRow_cells parseTableInt_def Sprintf_d_nonempty readInt_Sprintf_d)

text \<open>The theorem on the row of the example record, which has 12 imported routes and an
  exported count of -1; the numerals of 0 and -1 are not empty.\<close>

theorem route_count_cells_witness:
  "rowOf ansiColor exampleFlags exampleProtocols (bgp ''peer1'') ! 4 = ''12'' \<and>
   rowOf ansiColor exampleFlags exampleProtocols (bgp ''peer1'') ! 5 = [] \<and>
   Sprintf_d 0 = ''0'' \<and> Sprintf_d (- 1) = ''-1''"
proof -
  have a: "Imported (Routes (bgp ''peer1'')) = 12" "Exported (Routes (bgp ''peer1'')) = - 1"
    by (simp_all add: exampleState_def)
  have b: "Sprintf_d 12 = ''12''" "Sprintf_d 0 = ''0''" "Sprintf_d (- 1) = ''-1''"
    by (simp_all add: Sprintf_d_def decimal_small decimal_big digitChar_numerals)
  show ?thesis
    using route_count_cells [of ansiColor exampleFlags "bgp ''peer1''"
        "resolvedName exampleProtocols (bgp ''peer1'')"
        "resolvedTags exampleProtocols (bgp ''peer1'')" 0]
    by (simp add: rowOf_def a b)
qed

text \<open>
  Claim C10, as stated: the placeholder \<open>-\<close> appears in the AS and Neighbor cells only
  for records without a BGP sub-record. The Neighbor cell of a BGP record is its
  neighbour address as it is, whatever the string: a BGP record whose address is \<open>-\<close>
  shows \<open>-\<close> in the Neighbor cell.
\<close>

theorem neighbor_placeholder_counterexample:
  "BGP (exampleState ''peer1'' (Some \<lparr>NeighborAddress = ''-'', NeighborAS = 64512\<rparr>)) \<noteq> None \<and>
   rowOf ansiColor exampleFlags exampleProtocols
     (exampleState ''peer1'' (Some \<lparr>NeighborAddress = ''-'', NeighborAS = 64512\<rparr>)) ! 2 = ''-''"
  by (simp add: rowOf_def makeRow_cells exampleState_def)

text \<open>
  Claim C10, amended. For a record with a BGP sub-record the AS cell is the neighbour AS
  rendered as the route counts are: the empty string when it is -1, never the placeholder
  \<open>-\<close> (nor \<open>-1\<close>), and the Neighbor cell is the neighbour address of the sub-record
  unchanged. For a record without a BGP sub-record both cells hold the placeholder
  \<open>-\<close>. So the AS cell is \<open>-\<close> for records without a BGP sub-record only, and the
  Neighbor cell is \<open>-\<close> for those records and for a BGP record whose address is the
  string \<open>-\<close>.
\<close>

theorem neighbor_cells:
  "(BGP p = None \<longrightarrow>
      makeRow col fl p n tags ! 1 = ''-'' \<and> makeRow col fl p n tags ! 2 = ''-'') \<and>
   (\<forall>b. BGP p = Some b \<longrightarrow>
      makeRow col fl p n tags ! 1 = parseTableInt (NeighborAS b) \<and>
      makeRow col fl p n tags ! 2 = NeighborAddress b \<and>
      makeRow col fl p n tags ! 1 \<noteq> ''-'' \<and>
      (NeighborAS b = - 1 \<longrightarrow> makeRow col fl p n tags ! 1 = [])) \<and>
   (makeRow col fl p n tags ! 1 = ''-'') = (BGP p = None) \<and>
   (makeRow col fl p n tags ! 2 = ''-'') =
     (case BGP p of None \<Rightarrow> True | Some b \<Rightarrow> NeighborAddress b = ''-'')"
  using Sprintf_d_not_dash
  by (auto simp: makeRow_cells parseTableInt_def split: option.splits)

text \<open>The theorem on three rows: a BGP record whose neighbour AS is -1, the example BGP
  record (AS 64512), and a record without a BGP sub-record.\<close>

theorem neighbor_cells_witness:
  "rowOf ansiColor exampleFlags exampleProtocols
     (exampleState ''peer1'' (Some \<lparr>NeighborAddress = ''192.0.2.7'', NeighborAS = - 1\<rparr>)) ! 1 = [] \<and>
   rowOf ansiColor exampleFlags exampleProtocols
     (exampleState ''peer1'' (Some \<lparr>NeighborAddress = ''192.0.2.7'', NeighborAS = - 1\<rparr>)) ! 2 =
     ''192.0.2.7'' \<and>
   rowOf ansiColor exampleFlags exampleProtocols (bgp ''peer1'') ! 1 = ''64512'' \<and>
   rowOf ansiColor exampleFlags exampleProtocols (nonBGP ''static1'') ! 1 = ''-'' \<and>
   rowOf ansiColor exampleFlags exampleProtocols (nonBGP ''static1'') ! 2 = ''-''"
proof -
  let ?b = "\<lparr>NeighborAddress = ''192.0.2.7'', NeighborAS = - 1\<rparr>"
  have b: "Sprintf_d 64512 = ''64512''"
    by (simp add: Sprintf_d_def decimal_small decimal_big digitChar_numerals)
  have c: "BGP (exampleState m x) = x" for m x by (simp add: exampleState_def)
  show ?thesis
    using
      neighbor_cells [of "exampleState ''peer1'' (Some ?b)" ansiColor exampleFlags
        "resolvedName exampleProtocols (exampleState ''peer1'' (Some ?b))"
        "resolvedTags exampleProtocols (exampleState ''peer1'' (Some ?b))"]
      neighbor_cells [of "bgp ''peer1''" ansiColor exampleFlags
        "resolvedName exampleProtocols (bgp ''peer1'')"
        "resolvedTags exampleProtocols (bgp ''peer1'')"]
      neighbor_cells [of "nonBGP ''static1''" ansiColor exampleFlags
        "resolvedName exampleProtocols (nonBGP ''static1'')"
        "resolvedTags exampleProtocols (nonBGP ''static1'')"]
    by (simp add: rowOf_def c b exampleBGP_def parseTableInt_def)
qed

subsection \<open>Filtering\<close>

lemma exampleState_fields: "Name (exampleState n b) = n" "BGP (exampleState n b) = b"
  by (simp_all add: exampleState_def)

lemma example_no_nil: "\<not> hitsNil fl exampleProtocols p"
  by (simp add: hitsNil_def exampleProtocols_def)

lemma example_tags:
  "resolvedTags exampleProtocols (exampleState ''transit1'' b) = [''core'', ''edge'']"
  "resolvedTags exampleProtocols (exampleState ''peer1'' b) = [''core'']"
  "resolvedTags exampleProtocols (exampleState ''static1'' b) = []"
  by (simp_all add: resolvedTags_def exampleProtocols_def exampleState_def)

text \<open>
  Claim C7. The table holds the rows of the records that pass the filters, in their
  order: with a filter tag set that is not empty, a record (that passes the BGP-only
  flag) is retained if and only if its resolved tags and the filter tags have a tag in
  common; with an empty filter tag set the tags exclude no record. (The loop panics
  instead when it reaches a record whose name is bound to a \<^verbatim>\<open>nil\<close> entry.)
\<close>

theorem tag_filter_retains:
  "buildTable col fl pr ps =
     (if \<exists>p \<in> set ps. hitsNil fl pr p then Inl NilPointerDereference
      else Inr (map (rowOf col fl pr)
             (filter (\<lambda>p. passesBGPOnly fl p \<and>
                          (tagFilter fl = [] \<or>
                           set (resolvedTags pr p) \<inter> set (tagFilter fl) \<noteq> {})) ps))) \<and>
   containsAny (tagFilter fl) tags = (set tags \<inter> set (tagFilter fl) \<noteq> {})"
proof -
  have "retained fl pr = (\<lambda>p. passesBGPOnly fl p \<and>
          (tagFilter fl = [] \<or> set (resolvedTags pr p) \<inter> set (tagFilter fl) \<noteq> {}))"
    by (intro ext) (auto simp: retained_def passesTagFilter_def)
  then show ?thesis
    using tableLoop_rows [of col fl pr ps "[]"]
    by (auto simp: buildTable_def containsAny_set)
qed

text \<open>The theorem with the filter \<open>edge\<close>: the record tagged core and edge is retained,
  the record tagged core only and the record without tags are not; with no filter all
  three are.\<close>

theorem tag_filter_retains_witness:
  "buildTable ansiColor exampleFlags exampleProtocols
     [bgp ''peer1'', bgp ''transit1'', nonBGP ''static1''] =
     Inr [rowOf ansiColor exampleFlags exampleProtocols (bgp ''transit1'')] \<and>
   buildTable ansiColor (exampleFlags\<lparr>tagFilter := []\<rparr>) exampleProtocols
     [bgp ''peer1'', bgp ''transit1'', nonBGP ''static1''] =
     Inr [rowOf ansiColor (exampleFlags\<lparr>tagFilter := []\<rparr>) exampleProtocols (bgp ''peer1''),
          rowOf ansiColor (exampleFlags\<lparr>tagFilter := []\<rparr>) exampleProtocols (bgp ''transit1''),
          rowOf ansiColor (exampleFlags\<lparr>tagFilter := []\<rparr>) exampleProtocols (nonBGP ''static1'')]"
  using tag_filter_retains [of ansiColor exampleFlags exampleProtocols
      "[bgp ''peer1'', bgp ''transit1'', nonBGP ''static1'']"]
    tag_filter_retains [of ansiColor "exampleFlags\<lparr>tagFilter := []\<rparr>" exampleProtocols
      "[bgp ''peer1'', bgp ''transit1'', nonBGP ''static1'']"]
  by (simp add: example_no_nil example_tags passesBGPOnly_def exampleFlags_def)

text \<open>
  Claim C9. Filtering and the stable sort commute: the table built from the sorted
  records, which the loop filters as it goes, holds the rows of the records filtered
  first and sorted afterwards; on the records themselves, filtering the sorted sequence
  and sorting the filtered sequence give the same sequence. (A record bound to a
  \<^verbatim>\<open>nil\<close> entry makes the loop panic wherever the sort puts it.)
\<close>

theorem filter_sort_commute:
  "buildTable col fl pr (sortStates ct ps) =
     (if \<exists>p \<in> set ps. hitsNil fl pr p then Inl NilPointerDereference
      else Inr (map (rowOf col fl pr) (sortStates ct (filter (retained fl pr) ps)))) \<and>
   filter (retained fl pr) (sortStates ct ps) = sortStates ct (filter (retained fl pr) ps)"
  using tableLoop_rows [of col fl pr "sortStates ct ps" "[]"]
  by (simp add: buildTable_def set_sortStates filter_sortStates)

text \<open>The theorem with the BGP-only flag and the filter \<open>core\<close>: of three records the
  two BGP ones remain, \<open>transit1\<close> before \<open>peer1\<close>.\<close>

theorem filter_sort_commute_witness:
  "buildTable ansiColor (exampleFlags\<lparr>onlyBGP := True, tagFilter := [''core'']\<rparr>) exampleProtocols
     (sortStates exampleCaseTable [bgp ''peer1'', nonBGP ''static1'', bgp ''transit1'']) =
   Inr [rowOf ansiColor (exampleFlags\<lparr>onlyBGP := True, tagFilter := [''core'']\<rparr>)
          exampleProtocols (bgp ''transit1''),
        rowOf ansiColor (exampleFlags\<lparr>onlyBGP := True, tagFilter := [''core'']\<rparr>)
          exampleProtocols (bgp ''peer1'')]"
proof -
  let ?ps = "[bgp ''peer1'', nonBGP ''static1'', bgp ''transit1'']"
  let ?fl = "exampleFlags\<lparr>onlyBGP := True, tagFilter := [''core'']\<rparr>"
  have f: "filter (retained ?fl exampleProtocols) ?ps = [bgp ''peer1'', bgp ''transit1'']"
    by (simp add: retained_def passesBGPOnly_def passesTagFilter_def example_tags
        exampleFlags_def exampleState_fields)
  have s: "sortStates exampleCaseTable [bgp ''peer1'', bgp ''transit1''] =
             [bgp ''transit1'', bgp ''peer1'']"
    by code_simp
  have nb: "(\<exists>p \<in> set ?ps. hitsNil ?fl exampleProtocols p) = False"
    by (simp add: example_no_nil)
  have "buildTable ansiColor ?fl exampleProtocols (sortStates exampleCaseTable ?ps) =
          Inr (map (rowOf ansiColor ?fl exampleProtocols)
                 (sortStates exampleCaseTable (filter (retained ?fl exampleProtocols) ?ps)))"
    using filter_sort_commute [of ansiColor ?fl exampleProtocols exampleCaseTable ?ps]
    by (simp only: nb if_False)
  then show ?thesis unfolding f s by simp
qed

subsection \<open>The run of the command\<close>

lemma readProtocols_events:
  "fst (readProtocols fl w) = (if realProtocolNames fl then [] else [CallReadFile protocolsPath])"
  by (simp add: readProtocols_def split: sum.splits)

lemma readProtocols_flag:
  "realProtocolNames fl \<Longrightarrow> readProtocols fl w = ([], Inr Map.empty)"
  by (simp add: readProtocols_def)

lemma readProtocols_read_error:
  "\<not> realProtocolNames fl \<Longrightarrow> ReadFile w protocolsPath = Inl err \<Longrightarrow>
     readProtocols fl w =
       ([CallReadFile protocolsPath], Inl (''Reading protocol names: '' @ err))"
  by (simp add: readProtocols_def)

lemma readProtocols_decode_error:
  "\<not> realProtocolNames fl \<Longrightarrow> ReadFile w protocolsPath = Inr contents \<Longrightarrow>
   Unmarshal w contents = Inl err \<Longrightarrow>
     readProtocols fl w =
       ([CallReadFile protocolsPath], Inl (''Unmarshalling protocol names: '' @ err))"
  by (simp add: readProtocols_def)

lemma runWith_answered:
  assumes "RunCommand w ''show protocols all'' (BIRDSocket cfg) = Inr out"
  shows "runWith ct col fl w (Some cfg) =
     (case readProtocols fl w of
        (ev2, Inl msg) \<Rightarrow>
          (CallRunCommand ''show protocols all'' (BIRDSocket cfg) # ev2, Fatal msg)
      | (ev2, Inr protocols) \<Rightarrow>
          (case ParseProtocols w out of
             Inl e \<Rightarrow> (CallRunCommand ''show protocols all'' (BIRDSocket cfg) # ev2, Fatal e)
           | Inr protocolStates \<Rightarrow>
               (case buildTable col fl protocols (sortStates ct protocolStates) of
                  Inl p \<Rightarrow>
                    (CallRunCommand ''show protocols all'' (BIRDSocket cfg) # ev2, Panicked p)
                | Inr table \<Rightarrow>
                    (CallRunCommand ''show protocols all'' (BIRDSocket cfg) # ev2 @
                       [CallPrintTable (tableHeader fl) table],
                     Returned))))"
  using assms by (simp add: runWith_def Let_def split: sum.splits prod.splits)

lemma runWith_events:
  "fst (runWith ct col fl w (Some cfg)) =
     CallRunCommand ''show protocols all'' (BIRDSocket cfg) #
     (case RunCommand w ''show protocols all'' (BIRDSocket cfg) of
        Inl e \<Rightarrow> []
      | Inr out \<Rightarrow>
          fst (readProtocols fl w) @
          (case snd (readProtocols fl w) of
             Inl msg \<Rightarrow> []
           | Inr protocols \<Rightarrow>
               (case ParseProtocols w out of
                  Inl e \<Rightarrow> []
                | Inr protocolStates \<Rightarrow>
                    (case buildTable col fl protocols (sortStates ct protocolStates) of
                       Inl p \<Rightarrow> []
                     | Inr table \<Rightarrow> [CallPrintTable (tableHeader fl) table]))))"
  by (simp add: runWith_def Let_def split: sum.splits prod.splits)

lemma runWith_reads_file:
  "(CallReadFile protocolsPath \<in> set (fst (runWith ct col fl w c))) =
     (\<not> realProtocolNames fl \<and>
      (\<exists>cfg out. c = Some cfg \<and>
         RunCommand w ''show protocols all'' (BIRDSocket cfg) = Inr out))"
proof (cases c)
  case None
  then show ?thesis by (simp add: runWith_def)
next
  case (Some cfg)
  then show ?thesis
    by (cases "RunCommand w ''show protocols all'' (BIRDSocket cfg)")
       (auto simp: runWith_events readProtocols_events)
qed

lemma Run_loadConfig:
  "loadConfig w = (c, err) \<Longrightarrow>
     Run ct col fl w =
       ((case err of None \<Rightarrow> [] | Some e \<Rightarrow> [LogWarn (configWarning e)]) @
          fst (runWith ct col fl w c),
        snd (runWith ct col fl w c))"
  by (simp add: Run_def Let_def split: prod.splits)

lemma readProtocols_loadConfig_update:
  "readProtocols fl (w\<lparr>loadConfig := x\<rparr>) = readProtocols fl w"
  by (simp add: readProtocols_def split: sum.splits)

lemma runWith_loadConfig_update:
  "runWith ct col fl (w\<lparr>loadConfig := x\<rparr>) c = runWith ct col fl w c"
  by (cases c)
     (simp_all add: runWith_def readProtocols_loadConfig_update Let_def
        split: sum.splits prod.splits)

lemma buildTable_no_map:
  "buildTable col fl Map.empty ps =
     Inr (map (rowOf col fl Map.empty) (filter (retained fl Map.empty) ps))"
  by (rule buildTable_rows) simp

text \<open>
  Claim C5, as stated: when loading the configuration fails, the run logs a warning and
  goes on with name resolution disabled, reading no name-mapping file and not aborting.
  The run reads the name-mapping file whenever the flag for real protocol names is unset,
  whatever \<^verbatim>\<open>loadConfig\<close> returned: in the example environment the configuration
  fails to load, the file is read all the same, and the failed read ends the run. (Were
  \<^verbatim>\<open>loadConfig\<close> to return a \<^verbatim>\<open>nil\<close> pointer with its error, the run would end
  even sooner, at \<^verbatim>\<open>c.BIRDSocket\<close>.)
\<close>

theorem config_failure_counterexample:
  "snd (loadConfig exampleWorld) \<noteq> None \<and>
   \<not> realProtocolNames exampleFlags \<and>
   Run exampleCaseTable ansiColor exampleFlags exampleWorld =
     ([LogWarn ''Error loading config, falling back to no-config output parsing: no config file'',
       CallRunCommand ''show protocols all'' ''/run/bird/bird.ctl'',
       CallReadFile ''/etc/bird/protocols.json''],
      Fatal ''Reading protocol names: no such file or directory'') \<and>
   Run exampleCaseTable ansiColor exampleFlags
     (exampleWorld\<lparr>loadConfig := (None, Some ''no config file'')\<rparr>) =
     ([LogWarn ''Error loading config, falling back to no-config output parsing: no config file''],
      Panicked NilPointerDereference)"
  by (simp add: Run_def runWith_def readProtocols_def exampleWorld_def exampleFlags_def
      configWarning_def protocolsPath_def)

text \<open>
  Claim C5, amended. When loading the configuration fails, the run logs a warning and does
  not end at that check: with the configuration value that \<^verbatim>\<open>loadConfig\<close> returned it
  goes on as the run of a loaded configuration does. Name resolution is not disabled by
  the failure; it hangs on the flag for real protocol names alone. When a configuration
  value is returned and the daemon has answered: with the flag unset the name-mapping file
  is read, and a failure to read it or to decode it is fatal; with the flag set no file is
  read and, when the answer of the daemon parses, the table is printed with the raw
  identifiers.
\<close>

theorem config_failure_warns_and_continues:
  assumes "loadConfig w = (c, Some e)"
  shows
    "Run ct col fl w =
       (LogWarn (configWarning e) # fst (Run ct col fl (w\<lparr>loadConfig := (c, None)\<rparr>)),
        snd (Run ct col fl (w\<lparr>loadConfig := (c, None)\<rparr>))) \<and>
     (CallReadFile protocolsPath \<in> set (fst (Run ct col fl w))) =
       (\<not> realProtocolNames fl \<and>
        (\<exists>cfg out. c = Some cfg \<and>
           RunCommand w ''show protocols all'' (BIRDSocket cfg) = Inr out)) \<and>
     (\<forall>cfg out. c = Some cfg \<and> RunCommand w ''show protocols all'' (BIRDSocket cfg) = Inr out \<longrightarrow>
        (\<forall>err. \<not> realProtocolNames fl \<and> ReadFile w protocolsPath = Inl err \<longrightarrow>
           Run ct col fl w =
             ([LogWarn (configWarning e),
               CallRunCommand ''show protocols all'' (BIRDSocket cfg),
               CallReadFile protocolsPath],
              Fatal (''Reading protocol names: '' @ err))) \<and>
        (\<forall>contents err.
           \<not> realProtocolNames fl \<and> ReadFile w protocolsPath = Inr contents \<and>
           Unmarshal w contents = Inl err \<longrightarrow>
           Run ct col fl w =
             ([LogWarn (configWarning e),
               CallRunCommand ''show protocols all'' (BIRDSocket cfg),
               CallReadFile protocolsPath],
              Fatal (''Unmarshalling protocol names: '' @ err))) \<and>
        (\<forall>ps. realProtocolNames fl \<and> ParseProtocols w out = Inr ps \<longrightarrow>
           Run ct col fl w =
             ([LogWarn (configWarning e),
               CallRunCommand ''show protocols all'' (BIRDSocket cfg),
               CallPrintTable (tableHeader fl)
                 (map (rowOf col fl Map.empty)
                    (filter (retained fl Map.empty) (sortStates ct ps)))],
              Returned) \<and>
           (\<forall>p. resolvedName Map.empty p = Name p \<and> hd (rowOf col fl Map.empty p) = Name p)))"
proof -
  have a: "Run ct col fl w =
      (LogWarn (configWarning e) # fst (runWith ct col fl w c), snd (runWith ct col fl w c))"
    using Run_loadConfig [OF assms, of ct col fl] by simp
  have b: "Run ct col fl (w\<lparr>loadConfig := (c, None)\<rparr>) = runWith ct col fl w c"
    using Run_loadConfig [of "w\<lparr>loadConfig := (c, None)\<rparr>" c None ct col fl]
    by (simp add: runWith_loadConfig_update)
  have first: "Run ct col fl w =
       (LogWarn (configWarning e) # fst (Run ct col fl (w\<lparr>loadConfig := (c, None)\<rparr>)),
        snd (Run ct col fl (w\<lparr>loadConfig := (c, None)\<rparr>)))"
    by (simp only: a b)
  have second: "(CallReadFile protocolsPath \<in> set (fst (Run ct col fl w))) =
       (\<not> realProtocolNames fl \<and>
        (\<exists>cfg out. c = Some cfg \<and>
           RunCommand w ''show protocols all'' (BIRDSocket cfg) = Inr out))"
    using runWith_reads_file [of ct col fl w c] by (simp add: a)
  have third: "Run ct col fl w =
             ([LogWarn (configWarning e),
               CallRunCommand ''show protocols all'' (BIRDSocket cfg),
               CallReadFile protocolsPath],
              Fatal (''Reading protocol names: '' @ err))"
    if "c = Some cfg" "RunCommand w ''show protocols all'' (BIRDSocket cfg) = Inr out"
      "\<not> realProtocolNames fl" "ReadFile w protocolsPath = Inl err" for cfg out err
    using that by (simp add: a runWith_answered readProtocols_read_error)
  have fourth: "Run ct col fl w =
             ([LogWarn (configWarning e),
               CallRunCommand ''show protocols all'' (BIRDSocket cfg),
               CallReadFile protocolsPath],
              Fatal (''Unmarshalling protocol names: '' @ err))"
    if "c = Some cfg" "RunCommand w ''show protocols all'' (BIRDSocket cfg) = Inr out"
      "\<not> realProtocolNames fl" "ReadFile w protocolsPath = Inr contents"
      "Unmarshal w contents = Inl err" for cfg out contents err
    using that by (simp add: a runWith_answered readProtocols_decode_error)
  have fifth: "Run ct col fl w =
             ([LogWarn (configWarning e),
               CallRunCommand ''show protocols all'' (BIRDSocket cfg),
               CallPrintTable (tableHeader fl)
                 (map (rowOf col fl Map.empty)
                    (filter (retained fl Map.empty) (sortStates ct ps)))],
              Returned)"
    if "c = Some cfg" "RunCommand w ''show protocols all'' (BIRDSocket cfg) = Inr out"
      "realProtocolNames fl" "ParseProtocols w out = Inr ps" for cfg out ps
    using that by (simp add: a runWith_answered readProtocols_flag buildTable_no_map)
  have raw: "resolvedName Map.empty p = Name p \<and> hd (rowOf col fl Map.empty p) = Name p" for p
    by (simp add: resolvedName_def rowOf_def makeRow_def Let_def split: option.splits)
  show ?thesis
    using first second third fourth fifth raw by blast
qed

text \<open>The theorem in the example environment, where the configuration fails to load: with
  the flag for real protocol names set the run warns, reads no file and prints the record
  under its raw identifier \<open>transit1\<close>; with the flag unset and a name-mapping file that
  cannot be decoded the run is fatal.\<close>

theorem config_failure_warns_and_continues_witness:
  "Run exampleCaseTable ansiColor (exampleFlags\<lparr>realProtocolNames := True, tagFilter := []\<rparr>)
     exampleWorld =
     ([LogWarn (configWarning ''no config file''),
       CallRunCommand ''show protocols all'' ''/run/bird/bird.ctl'',
       CallPrintTable (tableHeader (exampleFlags\<lparr>realProtocolNames := True, tagFilter := []\<rparr>))
         [rowOf ansiColor (exampleFlags\<lparr>realProtocolNames := True, tagFilter := []\<rparr>) Map.empty
            (bgp ''transit1'')]],
      Returned) \<and>
   hd (rowOf ansiColor (exampleFlags\<lparr>realProtocolNames := True, tagFilter := []\<rparr>) Map.empty
         (bgp ''transit1'')) = ''transit1'' \<and>
   Run exampleCaseTable ansiColor exampleFlags
     (exampleWorld\<lparr>ReadFile := (\<lambda>name. Inr ''{''),
                    Unmarshal := (\<lambda>contents. Inl ''unexpected end of JSON input'')\<rparr>) =
     ([LogWarn (configWarning ''no config file''),
       CallRunCommand ''show protocols all'' ''/run/bird/bird.ctl'',
       CallReadFile protocolsPath],
      Fatal ''Unmarshalling protocol names: unexpected end of JSON input'')"
proof -
  let ?fl = "exampleFlags\<lparr>realProtocolNames := True, tagFilter := []\<rparr>"
  let ?w = "exampleWorld\<lparr>ReadFile := (\<lambda>name. Inr ''{''),
                         Unmarshal := (\<lambda>contents. Inl ''unexpected end of JSON input'')\<rparr>"
  let ?cfg = "\<lparr>BIRDSocket = ''/run/bird/bird.ctl''\<rparr>"
  have l: "loadConfig exampleWorld = (Some ?cfg, Some ''no config file'')"
    "loadConfig ?w = (Some ?cfg, Some ''no config file'')"
    by (simp_all add: exampleWorld_def)
  have r: "RunCommand exampleWorld ''show protocols all'' (BIRDSocket ?cfg) = Inr ''BIRD ready.''"
    "RunCommand ?w ''show protocols all'' (BIRDSocket ?cfg) = Inr ''BIRD ready.''"
    by (simp_all add: exampleWorld_def)
  have p: "ParseProtocols exampleWorld ''BIRD ready.'' = Inr [bgp ''transit1'']"
    by (simp add: exampleWorld_def)
  have f: "realProtocolNames ?fl" "\<not> realProtocolNames exampleFlags"
    by (simp_all add: exampleFlags_def)
  have u: "ReadFile ?w protocolsPath = Inr ''{''"
    "Unmarshal ?w ''{'' = Inl ''unexpected end of JSON input''"
    by simp_all
  have s: "sortStates exampleCaseTable [bgp ''transit1''] = [bgp ''transit1'']"
    by code_simp
  have k: "filter (retained ?fl Map.empty) [bgp ''transit1''] = [bgp ''transit1'']"
    by (simp add: retained_def passesBGPOnly_def passesTagFilter_def exampleFlags_def)
  note t1 = config_failure_warns_and_continues [OF l(1), of exampleCaseTable ansiColor ?fl]
  note t2 = config_failure_warns_and_continues [OF l(2), of exampleCaseTable ansiColor exampleFlags]
  have one: "Run exampleCaseTable ansiColor ?fl exampleWorld =
     ([LogWarn (configWarning ''no config file''),
       CallRunCommand ''show protocols all'' (BIRDSocket ?cfg),
       CallPrintTable (tableHeader ?fl)
         (map (rowOf ansiColor ?fl Map.empty)
            (filter (retained ?fl Map.empty) (sortStates exampleCaseTable [bgp ''transit1''])))],
      Returned)"
    using t1 r(1) p f(1) by blast
  have two: "hd (rowOf ansiColor ?fl Map.empty (bgp ''transit1'')) = Name (bgp ''transit1'')"
    using t1 r(1) p f(1) by blast
  have three: "Run exampleCaseTable ansiColor exampleFlags ?w =
     ([LogWarn (configWarning ''no config file''),
       CallRunCommand ''show protocols all'' (BIRDSocket ?cfg),
       CallReadFile protocolsPath],
      Fatal (''Unmarshalling protocol names: '' @ ''unexpected end of JSON input''))"
    using t2 r(2) f(2) u by blast
  have n: "Name (bgp ''transit1'') = ''transit1''" by (simp add: exampleState_def)
  show ?thesis
    using one two three by (simp only: s k n list.map) simp
qed
end
